theory Spec2Isabelle
  imports
    Complex_Main
    "HOL-Library.Product_Lexorder"
    "HOL-Library.Char_ord"
    "HOL-Library.List_Lexorder"
    "HOL-Library.AList"
    "HOL-Library.AList_Mapping"
    "HOL-Library.Monad_Syntax"
begin

section \<open>Circuit simulator core (core.py): data model\<close>

text \<open>
  Conventions of the embedding.
  \<^item> A Python \<open>float\<close> is a \<^typ>\<open>real\<close>: the arithmetic is exact, there is no NaN, no
    infinity and no rounding. \<open>int(x)\<close> on a float truncates towards zero (\<open>py_int\<close>).
  \<^item> An uncaught Python exception is the value \<open>None\<close> of an outer \<open>option\<close>
    (the only exception the model can raise is ZeroDivisionError, from float division).
    Where the source itself returns \<open>Optional[...]\<close> the model returns an inner
    \<open>option\<close>.
  \<^item> A \<open>dict\<close> that the code iterates over is an association list in insertion order,
    written with \<open>AList.update\<close> (an existing key keeps its position) and read with
    \<open>map_of\<close>; a \<open>dict\<close> that is only read by key and compared is a
    \<open>mapping\<close>, whose equality is that of Python's dicts.
  \<^item> Mutation of a component object is explicit: a function that writes to a component
    returns the new component, and \<open>solve_circuit\<close> returns the new circuit.
\<close>

type_synonym Point = "int \<times> int"

record Component =
  cid :: string
  ctype :: string
  a :: Point
  b :: Point
  props :: "(string, real) mapping"
  meta :: "(string, string) mapping"

text \<open>\<open>Circuit.components\<close>: a dict from identifier to component, in insertion order.\<close>

type_synonym Circuit = "(string \<times> Component) list"

definition R_NEAR_SHORT :: real where
  "R_NEAR_SHORT = 1 / 10 ^ 9"

text \<open>\<open>float(cmp.props.get(k, d))\<close> and \<open>cmp.meta.get(k, d)\<close>.\<close>

definition prop_get :: "Component \<Rightarrow> string \<Rightarrow> real \<Rightarrow> real" where
  "prop_get cmp k d = (case Mapping.lookup (props cmp) k of None \<Rightarrow> d | Some v \<Rightarrow> v)"

definition meta_get :: "Component \<Rightarrow> string \<Rightarrow> string \<Rightarrow> string" where
  "meta_get cmp k d = (case Mapping.lookup (meta cmp) k of None \<Rightarrow> d | Some v \<Rightarrow> v)"

text \<open>\<open>int(x)\<close> of a float: truncation towards zero.\<close>

definition py_int :: "real \<Rightarrow> int" where
  "py_int x = (if 0 \<le> x then \<lfloor>x\<rfloor> else \<lceil>x\<rceil>)"

text \<open>Float division: a zero divisor raises ZeroDivisionError.\<close>

definition py_div :: "real \<Rightarrow> real \<Rightarrow> real option" where
  "py_div x y = (if y = 0 then None else Some (x / y))"

subsection \<open>Meter ranges\<close>

text \<open>
  \<open>_parse_float_list\<close> is built from three calls into the Python library, which are
  parameters of the model: \<open>str.strip\<close>, the \<open>try\<close> block around \<open>json.loads\<close>
  (\<open>Some out\<close> when the text is a JSON list, \<open>out\<close> holding the items \<open>float\<close>
  accepts) and \<open>float\<close> on a token.
\<close>

record pylib =
  str_strip :: "string \<Rightarrow> string"
  json_float_list :: "string \<Rightarrow> real list option"
  py_float :: "string \<Rightarrow> real option"

text \<open>\<open>s.split(d)\<close> for a one-character separator.\<close>

fun split_on :: "char \<Rightarrow> string \<Rightarrow> string list" where
  "split_on d [] = [[]]"
| "split_on d (c # cs) =
     (if c = d then [] # split_on d cs
      else (case split_on d cs of [] \<Rightarrow> [[c]] | w # ws \<Rightarrow> (c # w) # ws))"

definition parse_float_list :: "pylib \<Rightarrow> string \<Rightarrow> real list" where
  "parse_float_list L s0 =
     (let s = str_strip L s0 in
      if s = [] then []
      else (case json_float_list L s of
              Some out \<Rightarrow> out
            | None \<Rightarrow>
                (let parts = map (str_strip L)
                               (split_on (CHR '','') (map (\<lambda>c. if c = CHR '';'' then CHR '','' else c) s))
                 in List.map_filter (py_float L) (filter (\<lambda>p. p \<noteq> []) parts))))"

definition meter_ranges :: "pylib \<Rightarrow> Component \<Rightarrow> real list" where
  "meter_ranges L cmp =
     (if ctype cmp = ''ammeter'' then
        parse_float_list L (meta_get cmp ''ranges_I'' (meta_get cmp ''ranges'' []))
      else if ctype cmp = ''voltmeter'' then
        parse_float_list L (meta_get cmp ''ranges_V'' (meta_get cmp ''ranges'' []))
      else if ctype cmp = ''galvanometer'' then
        parse_float_list L (meta_get cmp ''ranges_I'' (meta_get cmp ''ranges'' []))
      else [])"

definition meter_range_index :: "Component \<Rightarrow> int" where
  "meter_range_index cmp = py_int (prop_get cmp ''range'' 0)"

definition meter_full_scale :: "pylib \<Rightarrow> Component \<Rightarrow> real option" where
  "meter_full_scale L cmp =
     (let ranges = meter_ranges L cmp in
      if ranges = [] then None
      else (let idx0 = meter_range_index cmp;
                idx1 = (if idx0 < 0 then 0 else idx0);
                idx2 = (if idx1 \<ge> int (length ranges) then int (length ranges) - 1 else idx1)
            in Some (ranges ! nat idx2)))"

definition meter_effective_resistance :: "pylib \<Rightarrow> Component \<Rightarrow> real option" where
  "meter_effective_resistance L cmp =
     (if ctype cmp = ''ammeter'' then
        (case meter_full_scale L cmp of
           None \<Rightarrow> Some (max (prop_get cmp ''Rin'' (5 / 100)) R_NEAR_SHORT)
         | Some fs \<Rightarrow>
             (let burden_v = prop_get cmp ''burden_V'' (5 / 100)
              in Some (max (burden_v / max \<bar>fs\<bar> (1 / 10 ^ 15)) R_NEAR_SHORT)))
      else if ctype cmp = ''voltmeter'' then
        (case meter_full_scale L cmp of
           None \<Rightarrow> Some (max (prop_get cmp ''Rin'' (10 ^ 6)) R_NEAR_SHORT)
         | Some fs \<Rightarrow>
             (let ohm_per_v = prop_get cmp ''ohm_per_V'' (prop_get cmp ''sens'' (10 ^ 4))
              in Some (max (ohm_per_v * max \<bar>fs\<bar> (1 / 10 ^ 15)) R_NEAR_SHORT)))
      else if ctype cmp = ''galvanometer'' then
        (case meter_full_scale L cmp of
           None \<Rightarrow> Some (max (prop_get cmp ''Rcoil'' 50) R_NEAR_SHORT)
         | Some fs \<Rightarrow>
             (let Rcoil = prop_get cmp ''Rcoil'' 50;
                  Ifs = prop_get cmp ''Ifs'' (50 / 10 ^ 6)
              in if \<bar>Ifs\<bar> < 1 / 10 ^ 15 then Some (max Rcoil R_NEAR_SHORT)
                 else (let ratio = \<bar>fs\<bar> / \<bar>Ifs\<bar>
                       in if ratio \<le> 1 then Some (max Rcoil R_NEAR_SHORT)
                          else (let Rs = max (Rcoil / (ratio - 1)) R_NEAR_SHORT
                                in do {
                                     gc \<leftarrow> py_div 1 Rcoil;
                                     gs \<leftarrow> py_div 1 Rs;
                                     rp \<leftarrow> py_div 1 (gc + gs);
                                     Some (max rp R_NEAR_SHORT)
                                   }))))
      else Some (10 ^ 12))"

subsection \<open>Effective resistance\<close>

definition bulb_resistance :: "real \<Rightarrow> real \<Rightarrow> real" where
  "bulb_resistance Vr Wr = (if Wr \<le> 1 / 10 ^ 12 then 10 ^ 12 else max ((Vr * Vr) / Wr) (1 / 10 ^ 6))"

text \<open>
  \<open>effective_resistance\<close> returns the resistance (\<open>None\<close> for an open component) and the
  component as the call leaves it: the rheostat branch stores the clamped \<open>R\<close> in the
  component's property dict.
\<close>

definition effective_resistance :: "pylib \<Rightarrow> Component \<Rightarrow> (real option \<times> Component) option" where
  "effective_resistance L cmp =
     (let t = ctype cmp in
      if t = ''wire'' then Some (Some R_NEAR_SHORT, cmp)
      else if t = ''resistor'' then Some (Some (max (prop_get cmp ''R'' 100) (1 / 10 ^ 6)), cmp)
      else if t = ''bulb'' then
        (let Vr = prop_get cmp ''Vr'' 6; Wr = prop_get cmp ''Wr'' 3
         in Some (Some (bulb_resistance Vr Wr), cmp))
      else if t = ''rheostat'' then
        (let R0 = prop_get cmp ''R'' 100;
             Rmin0 = prop_get cmp ''Rmin'' 0;
             Rmax0 = prop_get cmp ''Rmax'' (max R0 100);
             Rmin = (if Rmax0 < Rmin0 then Rmax0 else Rmin0);
             Rmax = (if Rmax0 < Rmin0 then Rmin0 else Rmax0);
             R = max (min R0 Rmax) Rmin
         in Some (Some (max R (1 / 10 ^ 6)), cmp\<lparr>props := Mapping.update ''R'' R (props cmp)\<rparr>))
      else if t = ''ammeter'' then map_option (\<lambda>r. (Some r, cmp)) (meter_effective_resistance L cmp)
      else if t = ''galvanometer'' then map_option (\<lambda>r. (Some r, cmp)) (meter_effective_resistance L cmp)
      else if t = ''voltmeter'' then map_option (\<lambda>r. (Some r, cmp)) (meter_effective_resistance L cmp)
      else if t = ''switch_spst'' then
        (let state = py_int (prop_get cmp ''state'' 1)
         in Some (if state = 1 then Some R_NEAR_SHORT else None, cmp))
      else if t = ''button_momentary'' then
        (let pressed = py_int (prop_get cmp ''pressed'' 0)
         in Some (if pressed = 1 then Some R_NEAR_SHORT else None, cmp))
      else Some (None, cmp))"

subsection \<open>JSON projection\<close>

text \<open>
  The object \<open>to_json\<close> builds: under the key \<open>components\<close>, a list of dicts with the
  endpoints as lists. \<open>from_json\<close> reads \<open>props\<close> and \<open>meta\<close> with a default, and the
  whole list with a default, so these may be absent. \<open>tuple(it["a"])\<close> is a
  \<open>Point\<close> only for a two-element list; the model returns \<open>None\<close> for any other list.
\<close>

record json_component =
  j_cid :: string
  j_ctype :: string
  j_a :: "int list"
  j_b :: "int list"
  j_props :: "(string, real) mapping option"
  j_meta :: "(string, string) mapping option"

type_synonym json_obj = "json_component list option"

definition component_to_json :: "Component \<Rightarrow> json_component" where
  "component_to_json c =
     \<lparr>j_cid = cid c, j_ctype = ctype c,
      j_a = [fst (a c), snd (a c)], j_b = [fst (b c), snd (b c)],
      j_props = Some (props c), j_meta = Some (meta c)\<rparr>"

definition to_json :: "Circuit \<Rightarrow> json_obj" where
  "to_json cir = Some (map (\<lambda>kc. component_to_json (snd kc)) cir)"

fun point_of_list :: "int list \<Rightarrow> Point option" where
  "point_of_list [x, y] = Some (x, y)"
| "point_of_list _ = None"

definition component_of_json :: "json_component \<Rightarrow> Component option" where
  "component_of_json it =
     do {
       pa \<leftarrow> point_of_list (j_a it);
       pb \<leftarrow> point_of_list (j_b it);
       Some \<lparr>cid = j_cid it, ctype = j_ctype it, a = pa, b = pb,
             props = (case j_props it of None \<Rightarrow> Mapping.empty | Some p \<Rightarrow> p),
             meta = (case j_meta it of None \<Rightarrow> Mapping.empty | Some m \<Rightarrow> m)\<rparr>
     }"

text \<open>The loop of \<open>from_json\<close> and \<open>apply_json\<close>: \<open>cir.components[c.cid] = c\<close>.\<close>

fun load_items :: "json_component list \<Rightarrow> Circuit \<Rightarrow> Circuit option" where
  "load_items [] cir = Some cir"
| "load_items (it # its) cir =
     (case component_of_json it of
        None \<Rightarrow> None
      | Some c \<Rightarrow> load_items its (AList.update (cid c) c cir))"

definition from_json :: "json_obj \<Rightarrow> Circuit option" where
  "from_json obj = load_items (case obj of None \<Rightarrow> [] | Some its \<Rightarrow> its) []"

text \<open>\<open>apply_json\<close> clears the circuit it is called on and loads the same way.\<close>

definition apply_json :: "Circuit \<Rightarrow> json_obj \<Rightarrow> Circuit option" where
  "apply_json cir obj = load_items (case obj of None \<Rightarrow> [] | Some its \<Rightarrow> its) []"

subsection \<open>Snapshot history\<close>

text \<open>The stacks are Python lists: the top is the last element.\<close>

record CircuitHistory =
  max_len :: int
  undo_stack :: "json_obj list"
  redo_stack :: "json_obj list"

text \<open>\<open>xs[-m:]\<close>: the last \<open>m\<close> elements for \<open>m > 0\<close>, the whole list for \<open>m = 0\<close>,
  and the list without its first \<open>-m\<close> elements for \<open>m < 0\<close>.\<close>

definition slice_from_neg :: "'x list \<Rightarrow> int \<Rightarrow> 'x list" where
  "slice_from_neg xs m =
     (if m > 0 then drop (length xs - nat m) xs
      else if m = 0 then xs
      else drop (nat (- m)) xs)"

definition history_record :: "CircuitHistory \<Rightarrow> Circuit \<Rightarrow> CircuitHistory" where
  "history_record h cir =
     (let snap = to_json cir in
      if undo_stack h \<noteq> [] \<and> last (undo_stack h) = snap then h
      else (let us = undo_stack h @ [snap];
                us' = (if int (length us) > max_len h then slice_from_neg us (max_len h) else us)
            in h\<lparr>undo_stack := us', redo_stack := []\<rparr>))"

definition can_undo :: "CircuitHistory \<Rightarrow> bool" where
  "can_undo h = (length (undo_stack h) \<ge> 2)"

definition can_redo :: "CircuitHistory \<Rightarrow> bool" where
  "can_redo h = (length (redo_stack h) > 0)"

text \<open>\<open>undo\<close> returns its flag, the history and the circuit as the call leaves them
  (\<open>None\<close>: \<open>apply_json\<close> met an endpoint that is not a pair).\<close>

definition undo :: "CircuitHistory \<Rightarrow> Circuit \<Rightarrow> (bool \<times> CircuitHistory \<times> Circuit) option" where
  "undo h cir =
     (if \<not> can_undo h then Some (False, h, cir)
      else (let cur = last (undo_stack h);
                h' = h\<lparr>undo_stack := butlast (undo_stack h), redo_stack := redo_stack h @ [cur]\<rparr>;
                prev = last (undo_stack h')
            in map_option (\<lambda>cir'. (True, h', cir')) (apply_json cir prev)))"

definition redo :: "CircuitHistory \<Rightarrow> Circuit \<Rightarrow> (bool \<times> CircuitHistory \<times> Circuit) option" where
  "redo h cir =
     (if \<not> can_redo h then Some (False, h, cir)
      else (let nxt = last (redo_stack h);
                h' = h\<lparr>redo_stack := butlast (redo_stack h), undo_stack := undo_stack h @ [nxt]\<rparr>
            in map_option (\<lambda>cir'. (True, h', cir')) (apply_json cir nxt)))"

section \<open>The solver\<close>

subsection \<open>Results\<close>

text \<open>
  The warning texts are fixed strings outside ASCII (and one formatted string), so a
  warning is a constructor; the overcurrent warning keeps the two values its text is
  formatted from, \<open>display_name()\<close> and \<open>|I|\<close>.
\<close>

datatype warning = SingularMatrix | SourceOvercurrent string real | OpenLoop

record SolveResult =
  ok :: bool
  node_v :: "(Point \<times> real) list"
  comp_i :: "(string \<times> real) list"
  warnings :: "warning list"
  singular :: bool
  comp_flags :: "(string \<times> string) list"
  comp_branch_i :: "(string \<times> (string \<times> real) list) list"

text \<open>\<open>SolveResult(ok=False)\<close>: every other field at its default.\<close>

definition empty_result :: SolveResult where
  "empty_result = \<lparr>ok = False, node_v = [], comp_i = [], warnings = [], singular = False,
                    comp_flags = [], comp_branch_i = []\<rparr>"

text \<open>\<open>d.get(k, default)\<close> on an association list.\<close>

definition dict_get :: "('k \<times> 'v) list \<Rightarrow> 'k \<Rightarrow> 'v \<Rightarrow> 'v" where
  "dict_get d k dflt = (case map_of d k of None \<Rightarrow> dflt | Some v \<Rightarrow> v)"

definition display_name :: "Component \<Rightarrow> string" where
  "display_name c = ctype c @ '':'' @ take 4 (cid c)"

subsection \<open>Linear solve\<close>

definition eps :: real where
  "eps = 1 / 10 ^ 12"

text \<open>The pivot search of one column: \<open>best\<close> and \<open>pivot\<close> after the loop over the rows below.\<close>

definition pivot_search :: "real list list \<Rightarrow> nat \<Rightarrow> nat \<Rightarrow> real \<times> nat" where
  "pivot_search M n col =
     fold (\<lambda>r bp. (let v = \<bar>M ! r ! col\<bar> in if v > fst bp then (v, r) else bp))
          [Suc col..<n] (\<bar>M ! col ! col\<bar>, col)"

text \<open>One pass of the elimination loop for row \<open>r\<close>.\<close>

definition elim_row :: "nat \<Rightarrow> nat \<Rightarrow> nat \<Rightarrow> real list list \<times> real list \<Rightarrow> real list list \<times> real list" where
  "elim_row n col r Mx =
     (let M = fst Mx; x = snd Mx in
      if r = col then Mx
      else (let factor = M ! r ! col in
            if \<bar>factor\<bar> < eps then Mx
            else (M[r := fold (\<lambda>c row. row[c := row ! c - factor * (M ! col ! c)]) [col..<n] (M ! r)],
                  x[r := x ! r - factor * x ! col])))"

text \<open>
  The body of the loop over the columns; \<open>None\<close> is the \<open>return None\<close> of a pivot
  below tolerance. The division \<open>1.0 / piv\<close> is reached only with \<open>|piv| \<ge> eps\<close>.
\<close>

definition gauss_step :: "nat \<Rightarrow> nat \<Rightarrow> real list list \<times> real list \<Rightarrow> (real list list \<times> real list) option" where
  "gauss_step n col Mx =
     (let M = fst Mx; x = snd Mx;
          bp = pivot_search M n col;
          best = fst bp; pivot = snd bp
      in if best < eps then None
         else (let M1 = (if pivot \<noteq> col then M[col := M ! pivot, pivot := M ! col] else M);
                   x1 = (if pivot \<noteq> col then x[col := x ! pivot, pivot := x ! col] else x);
                   piv = M1 ! col ! col;
                   inv = 1 / piv;
                   M2 = M1[col := fold (\<lambda>c row. row[c := row ! c * inv]) [col..<n] (M1 ! col)];
                   x2 = x1[col := x1 ! col * inv]
               in Some (fold (elim_row n col) [0..<n] (M2, x2))))"

fun gauss_cols :: "nat \<Rightarrow> nat list \<Rightarrow> real list list \<times> real list \<Rightarrow> (real list list \<times> real list) option" where
  "gauss_cols n [] Mx = Some Mx"
| "gauss_cols n (col # cols) Mx =
     (case gauss_step n col Mx of None \<Rightarrow> None | Some Mx' \<Rightarrow> gauss_cols n cols Mx')"

text \<open>\<open>solve_linear\<close> is called with a square matrix and a vector of the same size.\<close>

definition solve_linear :: "real list list \<Rightarrow> real list \<Rightarrow> real list option" where
  "solve_linear A bv = (let n = length A in map_option snd (gauss_cols n [0..<n] (A, bv)))"

subsection \<open>Ground and switch expansion\<close>

definition ground_of :: "Component list \<Rightarrow> Point" where
  "ground_of comps =
     (case filter (\<lambda>c. ctype c = ''socket'') comps of
        c # _ \<Rightarrow> b c
      | [] \<Rightarrow> (let all_pts = concat (map (\<lambda>c. [a c, b c]) comps)
               in if all_pts = [] then (0, 0) else fold min (tl all_pts) (hd all_pts)))"

text \<open>
  An element of \<open>expanded\<close> with what the pass records for it. \<open>origin\<close> is the position
  in \<open>comps\<close> of the object the element is (a component that passes through is the same
  object in both lists), and \<open>None\<close> for a surrogate the pass creates.
\<close>

record solver_entry =
  sc :: Component
  parent :: string
  label :: string
  origin :: "nat option"

text \<open>\<open>int(c.props.get(k, d))\<close> with an integer default.\<close>

definition prop_int :: "Component \<Rightarrow> string \<Rightarrow> int \<Rightarrow> int" where
  "prop_int c k d = py_int (prop_get c k (of_int d))"

text \<open>The decimal text of the clamped \<open>throw\<close>, which is 0, 1 or 2.\<close>

definition digit_str :: "int \<Rightarrow> string" where
  "digit_str n = (if n = 0 then ''0'' else if n = 1 then ''1'' else ''2'')"

definition surrogate :: "string \<Rightarrow> Point \<Rightarrow> Point \<Rightarrow> real \<Rightarrow> string \<Rightarrow> Component" where
  "surrogate scid pa pb st variant =
     \<lparr>cid = scid, ctype = ''switch_spst'', a = pa, b = pb,
      props = Mapping.of_alist [(''state'', st)], meta = Mapping.of_alist [(''variant'', variant)]\<rparr>"

definition expand_component :: "nat \<Rightarrow> Component \<Rightarrow> solver_entry list" where
  "expand_component i c =
     (if ctype c = ''switch_spdt'' then
        (let throw = prop_int c ''throw'' 0;
             c2 = (prop_int c ''c_x'' (fst (b c)), prop_int c ''c_y'' (snd (b c) + 2))
         in if throw = 0 then
              [\<lparr>sc = surrogate (cid c @ '':t0'') (a c) (b c) 1 ''spdt->b'',
                parent = cid c, label = ''t0'', origin = None\<rparr>]
            else
              [\<lparr>sc = surrogate (cid c @ '':t1'') (a c) c2 1 ''spdt->c2'',
                parent = cid c, label = ''t1'', origin = None\<rparr>])
      else if ctype c = ''switch_sp3t'' then
        (let throw0 = prop_int c ''throw'' 0;
             t1 = b c;
             t2 = (prop_int c ''c_x'' (fst (b c)), prop_int c ''c_y'' (snd (b c) + 2));
             t3 = (prop_int c ''d_x'' (fst (b c)), prop_int c ''d_y'' (snd (b c) + 4));
             throw1 = (if throw0 < 0 then 0 else throw0);
             throw = (if throw1 > 2 then 2 else throw1)
         in [\<lparr>sc = surrogate (cid c @ '':t'' @ digit_str throw) (a c) ([t1, t2, t3] ! nat throw) 1
                     (''sp3t->t'' @ digit_str throw),
              parent = cid c, label = ''t'' @ digit_str throw, origin = None\<rparr>])
      else if ctype c = ''switch_dpst'' then
        (let state = prop_int c ''state'' 1;
             p2a = (prop_int c ''c_x'' (fst (a c)), prop_int c ''c_y'' (snd (a c) + 2));
             p2b = (prop_int c ''d_x'' (fst (b c)), prop_int c ''d_y'' (snd (b c) + 2))
         in [\<lparr>sc = surrogate (cid c @ '':p1'') (a c) (b c) (of_int state) ''dpst:p1'',
              parent = cid c, label = ''p1'', origin = None\<rparr>,
             \<lparr>sc = surrogate (cid c @ '':p2'') p2a p2b (of_int state) ''dpst:p2'',
              parent = cid c, label = ''p2'', origin = None\<rparr>])
      else if ctype c = ''switch_dpdt'' then
        (let throw0 = prop_int c ''throw'' 0;
             throw1 = (if throw0 < 0 then 0 else throw0);
             throw = (if throw1 > 1 then 1 else throw1);
             t1_0 = b c;
             t1_1 = (prop_int c ''c_x'' (fst (b c)), prop_int c ''c_y'' (snd (b c) + 2));
             com2 = (prop_int c ''d_x'' (fst (a c)), prop_int c ''d_y'' (snd (a c) + 4));
             t2_0 = (prop_int c ''e_x'' (fst com2 + 6), prop_int c ''e_y'' (snd com2));
             t2_1 = (prop_int c ''f_x'' (fst t2_0), prop_int c ''f_y'' (snd t2_0 + 2));
             pole1_target = (if throw = 0 then t1_0 else t1_1);
             pole2_target = (if throw = 0 then t2_0 else t2_1)
         in [\<lparr>sc = surrogate (cid c @ '':p1'') (a c) pole1_target 1 (''dpdt:p1:t'' @ digit_str throw),
              parent = cid c, label = ''p1'', origin = None\<rparr>,
             \<lparr>sc = surrogate (cid c @ '':p2'') com2 pole2_target 1 (''dpdt:p2:t'' @ digit_str throw),
              parent = cid c, label = ''p2'', origin = None\<rparr>])
      else if ctype c = ''button_momentary'' then
        (let pressed = prop_int c ''pressed'' 0
         in [\<lparr>sc = surrogate (cid c @ '':m'') (a c) (b c) (if pressed = 1 then 1 else 0) ''momentary'',
              parent = cid c, label = ''m'', origin = None\<rparr>])
      else [\<lparr>sc = c, parent = cid c, label = ''main'', origin = Some i\<rparr>])"

definition expand_all :: "Component list \<Rightarrow> solver_entry list" where
  "expand_all comps = concat (map (\<lambda>ic. expand_component (fst ic) (snd ic)) (enumerate 0 comps))"

text \<open>\<open>solver_parent\<close> and \<open>solver_label\<close>, keyed by the identifier of the solver component.\<close>

definition solver_parent_of :: "solver_entry list \<Rightarrow> (string \<times> string) list" where
  "solver_parent_of ents = fold (\<lambda>e d. AList.update (cid (sc e)) (parent e) d) ents []"

definition solver_label_of :: "solver_entry list \<Rightarrow> (string \<times> string) list" where
  "solver_label_of ents = fold (\<lambda>e d. AList.update (cid (sc e)) (label e) d) ents []"

subsection \<open>Node indexing and stamping\<close>

definition nodes_of :: "Component list \<Rightarrow> Point list" where
  "nodes_of expanded = sort (remdups (concat (map (\<lambda>c. [a c, b c]) expanded)))"

definition node_index_of :: "Point \<Rightarrow> Point list \<Rightarrow> (Point \<times> nat) list" where
  "node_index_of ground nodes =
     (let ns = filter (\<lambda>n. n \<noteq> ground) nodes in zip ns [0..<length ns])"

text \<open>\<open>A[i][j] += v\<close>.\<close>

definition add_at :: "real list list \<Rightarrow> nat \<Rightarrow> nat \<Rightarrow> real \<Rightarrow> real list list" where
  "add_at A i j v = A[i := (A ! i)[j := A ! i ! j + v]]"

definition stamp_conductance :: "(Point \<times> nat) list \<Rightarrow> Component \<Rightarrow> real \<Rightarrow> real list list \<Rightarrow> real list list" where
  "stamp_conductance ni c g A =
     (let ia = map_of ni (a c); ib = map_of ni (b c);
          A1 = (case ia of Some i \<Rightarrow> add_at A i i g | None \<Rightarrow> A);
          A2 = (case ib of Some j \<Rightarrow> add_at A1 j j g | None \<Rightarrow> A1)
      in (case ia of
            None \<Rightarrow> A2
          | Some i \<Rightarrow> (case ib of None \<Rightarrow> A2 | Some j \<Rightarrow> add_at (add_at A2 i j (- g)) j i (- g))))"

text \<open>
  The loop that stamps the conductances. It returns the matrix and the elements of
  \<open>expanded\<close> as the calls of \<open>effective_resistance\<close> leave them.
\<close>

fun stamp_components :: "pylib \<Rightarrow> (Point \<times> nat) list \<Rightarrow> solver_entry list \<Rightarrow> real list list
                          \<Rightarrow> (real list list \<times> solver_entry list) option" where
  "stamp_components L ni [] A = Some (A, [])"
| "stamp_components L ni (e # es) A =
     (if ctype (sc e) = ''socket'' then
        map_option (\<lambda>r. (fst r, e # snd r)) (stamp_components L ni es A)
      else do {
        Rc \<leftarrow> effective_resistance L (sc e);
        A1 \<leftarrow> (case fst Rc of
                 None \<Rightarrow> Some A
               | Some R \<Rightarrow> map_option (\<lambda>g. stamp_conductance ni (snd Rc) g A) (py_div 1 R));
        r \<leftarrow> stamp_components L ni es A1;
        Some (fst r, e\<lparr>sc := snd Rc\<rparr> # snd r)
      })"

fun stamp_sources :: "(Point \<times> nat) list \<Rightarrow> nat \<Rightarrow> Component list \<Rightarrow> nat
                       \<Rightarrow> real list list \<times> real list \<Rightarrow> real list list \<times> real list" where
  "stamp_sources ni n [] k Ab = Ab"
| "stamp_sources ni n (c # cs) k Ab =
     (let row = n + k;
          A1 = (case map_of ni (a c) of
                  Some i \<Rightarrow> add_at (add_at (fst Ab) i row 1) row i 1
                | None \<Rightarrow> fst Ab);
          A2 = (case map_of ni (b c) of
                  Some j \<Rightarrow> add_at (add_at A1 j row (- 1)) row j (- 1)
                | None \<Rightarrow> A1)
      in stamp_sources ni n cs (Suc k) (A2, (snd Ab)[row := prop_get c ''V'' 5]))"

subsection \<open>Post-processing\<close>

text \<open>\<open>xs.index(x)\<close> for an \<open>x\<close> that occurs in \<open>xs\<close>: the first position holding an equal value.\<close>

definition index_of :: "'x list \<Rightarrow> 'x \<Rightarrow> nat" where
  "index_of xs x = length (takeWhile (\<lambda>y. y \<noteq> x) xs)"

text \<open>
  The loop that fills \<open>solver_comp_i\<close>. \<open>nv\<close> is \<open>node_v\<close>, \<open>vs\<close> is \<open>vsources\<close>,
  \<open>n\<close> is \<open>len(node_index)\<close>.
\<close>

fun solver_currents :: "pylib \<Rightarrow> (Point \<times> real) list \<Rightarrow> Component list \<Rightarrow> nat \<Rightarrow> real list
                         \<Rightarrow> solver_entry list \<Rightarrow> (string \<times> real) list
                         \<Rightarrow> ((string \<times> real) list \<times> solver_entry list) option" where
  "solver_currents L nv vs n sol [] sci = Some (sci, [])"
| "solver_currents L nv vs n sol (e # es) sci =
     (let c = sc e; Va = dict_get nv (a c) 0; Vb = dict_get nv (b c) 0 in
      if ctype c = ''socket'' then
        (let k = index_of vs c; I = sol ! (n + k)
         in map_option (\<lambda>r. (fst r, e # snd r))
              (solver_currents L nv vs n sol es (AList.update (cid c) I sci)))
      else do {
        Rc \<leftarrow> effective_resistance L c;
        I \<leftarrow> (case fst Rc of None \<Rightarrow> Some 0 | Some R \<Rightarrow> py_div (Va - Vb) R);
        r \<leftarrow> solver_currents L nv vs n sol es (AList.update (cid c) I sci);
        Some (fst r, e\<lparr>sc := snd Rc\<rparr> # snd r)
      })"

text \<open>\<open>next((x for x in expanded if x.cid == scid), None)\<close>, as a position.\<close>

definition find_entry :: "solver_entry list \<Rightarrow> string \<Rightarrow> nat option" where
  "find_entry ents scid =
     (let j = length (takeWhile (\<lambda>e. cid (sc e) \<noteq> scid) ents)
      in if j < length ents then Some j else None)"

record branch_state =
  bs_entries :: "solver_entry list"
  bs_branch_i :: "(string \<times> (string \<times> real) list) list"
  bs_flags :: "(string \<times> string) list"

text \<open>The loop over \<open>solver_parent.items()\<close> that fills \<open>comp_branch_i\<close> and the open flags.\<close>

fun branch_loop :: "pylib \<Rightarrow> (string \<times> string) list \<Rightarrow> (string \<times> real) list
                     \<Rightarrow> (string \<times> string) list \<Rightarrow> branch_state \<Rightarrow> branch_state option" where
  "branch_loop L sl sci [] st = Some st"
| "branch_loop L sl sci (item # items) st =
     (let scid = fst item; par = snd item;
          lab = dict_get sl scid ''main'';
          st1 = st\<lparr>bs_branch_i :=
                     AList.update par
                       (AList.update lab (dict_get sci scid 0) (dict_get (bs_branch_i st) par []))
                       (bs_branch_i st)\<rparr>
      in case find_entry (bs_entries st1) scid of
           None \<Rightarrow> branch_loop L sl sci items st1
         | Some j \<Rightarrow>
             (let e = bs_entries st1 ! j in
              if ctype (sc e) \<noteq> ''socket'' then
                do {
                  Rc \<leftarrow> effective_resistance L (sc e);
                  branch_loop L sl sci items
                    (st1\<lparr>bs_entries := (bs_entries st1)[j := e\<lparr>sc := snd Rc\<rparr>],
                         bs_flags := (if fst Rc = None then AList.update par ''open'' (bs_flags st1)
                                      else bs_flags st1)\<rparr>)
                }
              else branch_loop L sl sci items st1))"

text \<open>The current of an original component, from its branches.\<close>

definition comp_current :: "(string \<times> real) list \<Rightarrow> (string \<times> (string \<times> real) list) list \<Rightarrow> Component \<Rightarrow> real" where
  "comp_current sci cbi oc =
     (if ctype oc = ''socket'' then dict_get sci (cid oc) 0
      else (case map_of cbi (cid oc) of
              None \<Rightarrow> dict_get sci (cid oc) 0
            | Some branches \<Rightarrow>
                if branches = [] then dict_get sci (cid oc) 0
                else if ''main'' \<in> set (map fst branches) then dict_get branches ''main'' 0
                else dict_get branches (hd (sort (map fst branches))) 0))"

definition comp_currents :: "(string \<times> real) list \<Rightarrow> (string \<times> (string \<times> real) list) list \<Rightarrow> Component list
                             \<Rightarrow> (string \<times> real) list" where
  "comp_currents sci cbi comps = fold (\<lambda>oc d. AList.update (cid oc) (comp_current sci cbi oc) d) comps []"

text \<open>The loop that flags the sources over their threshold; the state is \<open>(warnings, comp_flags)\<close>.\<close>

definition source_overcurrent :: "(string \<times> real) list \<Rightarrow> (string \<times> real) list \<Rightarrow> Component list
                                  \<Rightarrow> warning list \<times> (string \<times> string) list
                                  \<Rightarrow> warning list \<times> (string \<times> string) list" where
  "source_overcurrent sci ci vs wfl =
     fold (\<lambda>c wfl1. (let I = dict_get sci (cid c) (dict_get ci (cid c) 0) in
                    if \<bar>I\<bar> > prop_get c ''Iwarn'' 5 then
                      (fst wfl1 @ [SourceOvercurrent (display_name c) \<bar>I\<bar>],
                       AList.update (cid c) ''source_overcurrent'' (snd wfl1))
                    else wfl1))
          vs wfl"

definition max_iwarn_of :: "Component list \<Rightarrow> real option" where
  "max_iwarn_of vs =
     fold (\<lambda>c mi. Some (max (prop_get c ''Iwarn'' 5) (case mi of None \<Rightarrow> 0 | Some v \<Rightarrow> v))) vs None"

definition overcurrent_flags :: "(string \<times> real) list \<Rightarrow> Component list \<Rightarrow> Component list
                                 \<Rightarrow> (string \<times> string) list \<Rightarrow> (string \<times> string) list" where
  "overcurrent_flags ci vs comps flags =
     (case max_iwarn_of vs of
        None \<Rightarrow> flags
      | Some thr \<Rightarrow>
          if list_ex (\<lambda>c. map_of flags (cid c) = Some ''source_overcurrent'') vs then
            fold (\<lambda>c f. if map_of f (cid c) \<noteq> None then f
                         else if ctype c = ''socket'' then f
                         else if \<bar>dict_get ci (cid c) 0\<bar> > thr then AList.update (cid c) ''overcurrent'' f
                         else f)
                 comps flags
          else flags)"

definition open_loop_warning :: "(string \<times> real) list \<Rightarrow> Component list \<Rightarrow> warning list \<Rightarrow> warning list" where
  "open_loop_warning ci vs ws =
     (if vs \<noteq> [] \<and> list_all (\<lambda>c. \<bar>dict_get ci (cid c) 0\<bar> < 1 / 10 ^ 6) vs then ws @ [OpenLoop] else ws)"

text \<open>Everything after a successful linear solve; \<open>ents\<close> are the elements of \<open>expanded\<close>
  as the stamping loop left them.\<close>

definition post_process :: "pylib \<Rightarrow> Point \<Rightarrow> (Point \<times> nat) list \<Rightarrow> Component list \<Rightarrow> Component list
                            \<Rightarrow> solver_entry list \<Rightarrow> real list \<Rightarrow> (SolveResult \<times> solver_entry list) option" where
  "post_process L ground ni vs comps ents sol =
     (let nv = (ground, 0) # map (\<lambda>ni1. (fst ni1, sol ! snd ni1)) ni in
      do {
        sr \<leftarrow> solver_currents L nv vs (length ni) sol ents [];
        st \<leftarrow> branch_loop L (solver_label_of ents) (fst sr) (solver_parent_of ents)
               \<lparr>bs_entries = snd sr, bs_branch_i = [], bs_flags = []\<rparr>;
        let ci = comp_currents (fst sr) (bs_branch_i st) comps;
            wfl = source_overcurrent (fst sr) ci vs ([], bs_flags st);
            flags = overcurrent_flags ci vs comps (snd wfl);
            ws = open_loop_warning ci vs (fst wfl)
        in Some (\<lparr>ok = True, node_v = nv, comp_i = ci, warnings = ws, singular = False,
                   comp_flags = flags, comp_branch_i = bs_branch_i st\<rparr>,
                 bs_entries st)
      })"

text \<open>The circuit after the call: every element of \<open>expanded\<close> that is an object of the
  circuit, at its position.\<close>

definition write_back :: "Circuit \<Rightarrow> solver_entry list \<Rightarrow> Circuit" where
  "write_back cir ents =
     fold (\<lambda>e cr. case origin e of None \<Rightarrow> cr | Some i \<Rightarrow> cr[i := (fst (cr ! i), sc e)]) ents cir"

definition solve_circuit :: "pylib \<Rightarrow> Circuit \<Rightarrow> (SolveResult \<times> Circuit) option" where
  "solve_circuit L cir =
     (let comps = map snd cir;
          ground = ground_of comps;
          ents = expand_all comps;
          expanded = map sc ents;
          ni = node_index_of ground (nodes_of expanded);
          vsources = filter (\<lambda>c. ctype c = ''socket'') expanded;
          N = length ni + length vsources
      in if N = 0 then Some (empty_result\<lparr>ok := True\<rparr>, cir)
         else do {
           st \<leftarrow> stamp_components L ni ents (replicate N (replicate N 0));
           let Ab = stamp_sources ni (length ni) vsources 0 (fst st, replicate N 0) in
           (case solve_linear (fst Ab) (snd Ab) of
              None \<Rightarrow>
                Some (empty_result\<lparr>ok := False, singular := True, warnings := [SingularMatrix]\<rparr>,
                      write_back cir (snd st))
            | Some sol \<Rightarrow>
                map_option (\<lambda>r. (fst r, write_back cir (snd r)))
                  (post_process L ground ni vsources comps (snd st) sol))
         })"

text \<open>
  The system \<open>A\<close>, \<open>bvec\<close> that \<open>solve_circuit\<close> hands to \<open>solve_linear\<close>, with the
  elements of \<open>expanded\<close> after stamping (lemma \<open>solve_circuit_assemble\<close> below).
\<close>

definition assemble :: "pylib \<Rightarrow> Circuit \<Rightarrow> (real list list \<times> real list \<times> solver_entry list) option" where
  "assemble L cir =
     (let comps = map snd cir;
          ground = ground_of comps;
          ents = expand_all comps;
          expanded = map sc ents;
          ni = node_index_of ground (nodes_of expanded);
          vsources = filter (\<lambda>c. ctype c = ''socket'') expanded;
          N = length ni + length vsources
      in do {
           st \<leftarrow> stamp_components L ni ents (replicate N (replicate N 0));
           let Ab = stamp_sources ni (length ni) vsources 0 (fst st, replicate N 0) in
           Some (fst Ab, snd Ab, snd st)
         })"

text \<open>
  The library is consulted only for a meter that carries range metadata. The concrete
  circuits evaluated below have none; they are evaluated with this stand-in, which
  finds no number anywhere.
\<close>

definition lib_unused :: pylib where
  "lib_unused = \<lparr>str_strip = (\<lambda>s. s), json_float_list = (\<lambda>s. None), py_float = (\<lambda>s. None)\<rparr>"

section \<open>Goal seek\<close>

subsection \<open>Measurements\<close>

definition component_metrics :: "pylib \<Rightarrow> SolveResult \<Rightarrow> Component \<Rightarrow> ((string \<times> real) list \<times> Component) option" where
  "component_metrics L result cmp =
     (let Va = dict_get (node_v result) (a cmp) 0;
          Vb = dict_get (node_v result) (b cmp) 0;
          Vab = Va - Vb;
          Iab = dict_get (comp_i result) (cid cmp) 0;
          P = Vab * Iab;
          out = [(''Va'', Va), (''Vb'', Vb), (''Vab'', Vab), (''Iab'', Iab), (''P'', P)]
      in do {
           Rc \<leftarrow> effective_resistance L cmp;
           Some (case fst Rc of None \<Rightarrow> out | Some R \<Rightarrow> AList.update ''R'' R out, snd Rc)
         })"

text \<open>
  The measurement descriptor, a dict in the source, with its defaults applied:
  \<open>m_kind\<close> is \<open>str(spec.get("kind", "comp"))\<close>, \<open>m_field\<close> is
  \<open>str(spec.get("field", "Iab"))\<close>, \<open>m_abs\<close> is the truth value of \<open>spec.get("abs")\<close>;
  \<open>m_node\<close>, \<open>m_cid\<close> and \<open>m_branch\<close> are \<open>None\<close> when the key is absent.
\<close>

record measure_spec =
  m_kind :: string
  m_node :: "Point option"
  m_cid :: "string option"
  m_field :: string
  m_branch :: "string option"
  m_abs :: bool

text \<open>
  \<open>_goal_measure\<close> returns the measurement and the circuit as the call leaves it
  (\<open>component_metrics\<close> calls \<open>effective_resistance\<close> on a component of the circuit).
\<close>

definition goal_measure :: "pylib \<Rightarrow> SolveResult \<Rightarrow> Circuit \<Rightarrow> measure_spec \<Rightarrow> (real option \<times> Circuit) option" where
  "goal_measure L result cir spec =
     (let ab = (\<lambda>v. if m_abs spec then \<bar>v\<bar> else v) in
      if m_kind spec = ''node'' then
        (case m_node spec of
           None \<Rightarrow> Some (None, cir)
         | Some n \<Rightarrow> Some (Some (ab (dict_get (node_v result) n 0)), cir))
      else
        (case m_cid spec of
           None \<Rightarrow> Some (None, cir)
         | Some k \<Rightarrow>
             (let br = (case m_branch spec of
                          None \<Rightarrow> None
                        | Some bname \<Rightarrow>
                            if m_field spec = ''Iab''
                            then map_of (dict_get (comp_branch_i result) k []) bname
                            else None)
              in case br of
                   Some v \<Rightarrow> Some (Some (ab v), cir)
                 | None \<Rightarrow>
                     (case map_of cir k of
                        None \<Rightarrow> Some (None, cir)
                      | Some cmp \<Rightarrow>
                          do {
                            mc \<leftarrow> component_metrics L result cmp;
                            Some (map_option ab (map_of (fst mc) (m_field spec)),
                                  AList.update k (snd mc) cir)
                          }))))"

subsection \<open>The search\<close>

record GoalSeekResult =
  gs_ok :: bool
  gs_value :: real
  gs_achieved :: real
  gs_target :: real
  gs_error :: real
  gs_iterations :: nat
  gs_message :: string
  gs_history :: "(real \<times> real) list"

text \<open>\<open>GoalSeekResult(ok=False, message=msg)\<close>: every other field at its default.\<close>

definition fail_result :: "string \<Rightarrow> GoalSeekResult" where
  "fail_result msg =
     \<lparr>gs_ok = False, gs_value = 0, gs_achieved = 0, gs_target = 0, gs_error = 0,
      gs_iterations = 0, gs_message = msg, gs_history = []\<rparr>"

text \<open>The arguments of \<open>goal_seek_parameter\<close> after the circuit (\<open>gmeasure\<close> is
  \<open>measure\<close>, \<open>gmethod\<close> is \<open>method\<close>).\<close>

record goal_args =
  var_cid :: string
  var_prop :: string
  target :: real
  gmeasure :: measure_spec
  lo :: real
  hi :: real
  tol_abs :: real
  tol_rel :: real
  max_iter :: int
  gmethod :: string
  reject_if_overcurrent :: bool

text \<open>\<open>comp.props[p] = v\<close> on the component stored under key \<open>k\<close>.\<close>

definition set_prop :: "Circuit \<Rightarrow> string \<Rightarrow> string \<Rightarrow> real \<Rightarrow> Circuit" where
  "set_prop cir k p v =
     (case map_of cir k of
        None \<Rightarrow> cir
      | Some c \<Rightarrow> AList.update k (c\<lparr>props := Mapping.update p v (props c)\<rparr>) cir)"

text \<open>
  The memo table of \<open>eval_err\<close>: \<open>None\<close> for a point not yet evaluated, \<open>Some None\<close> for
  the stored pair \<open>(None, None)\<close>, \<open>Some (Some (err, mvf))\<close> otherwise. The searcher's
  state is the circuit and this table. The two \<open>math.isfinite\<close> tests always pass on reals.
\<close>

type_synonym seek_state = "Circuit \<times> (real \<Rightarrow> (real \<times> real) option option)"

definition eval_err :: "pylib \<Rightarrow> goal_args \<Rightarrow> real \<Rightarrow> seek_state \<Rightarrow> ((real \<times> real) option \<times> seek_state) option" where
  "eval_err L P x st =
     (let cir = fst st; cache = snd st in
      case cache x of
        Some r \<Rightarrow> Some (r, st)
      | None \<Rightarrow>
          do {
            rc \<leftarrow> solve_circuit L (set_prop cir (var_cid P) (var_prop P) x);
            (let res = fst rc; cir2 = snd rc in
             if \<not> ok res then Some (None, cir2, cache(x \<mapsto> None))
             else if reject_if_overcurrent P
                     \<and> list_ex (\<lambda>kv. snd kv = ''source_overcurrent'') (comp_flags res)
             then Some (None, cir2, cache(x \<mapsto> None))
             else do {
               mc \<leftarrow> goal_measure L res cir2 (gmeasure P);
               (case fst mc of
                  None \<Rightarrow> Some (None, snd mc, cache(x \<mapsto> None))
                | Some mvf \<Rightarrow>
                    (let err = mvf - target P
                     in Some (Some (err, mvf), snd mc, cache(x \<mapsto> Some (err, mvf)))))
             })
          })"

definition is_done :: "goal_args \<Rightarrow> real \<Rightarrow> real \<Rightarrow> bool" where
  "is_done P err achieved =
     (let tol = max (tol_abs P) (tol_rel P * max 1 (max \<bar>target P\<bar> \<bar>achieved\<bar>))
      in \<bar>err\<bar> \<le> tol)"

text \<open>The bracketing test on two errors.\<close>

definition straddles :: "real \<Rightarrow> real \<Rightarrow> bool" where
  "straddles e1 e2 = (e1 = 0 \<or> e2 = 0 \<or> (e1 < 0 \<and> 0 < e2) \<or> (e2 < 0 \<and> 0 < e1))"

text \<open>\<open>str(var_prop).upper() == "R"\<close>.\<close>

definition is_R_name :: "string \<Rightarrow> bool" where
  "is_R_name p = (p = ''R'' \<or> p = ''r'')"

text \<open>The state of the bracket expansion loop: \<open>lo2, hi2\<close> and the pairs
  \<open>(e_lo0, m_lo0)\<close>, \<open>(e_hi0, m_hi0)\<close>.\<close>

record bracket_state =
  br_lo :: real
  br_hi :: real
  br_elo :: "real \<times> real"
  br_ehi :: "real \<times> real"
  br_st :: seek_state

text \<open>The loop \<open>for _ in range(12)\<close>; the flag tells whether the \<open>break\<close> was taken.\<close>

fun bracket_loop :: "pylib \<Rightarrow> goal_args \<Rightarrow> nat \<Rightarrow> bracket_state \<Rightarrow> (bracket_state \<times> bool) option" where
  "bracket_loop L P 0 s = Some (s, False)"
| "bracket_loop L P (Suc k) s =
     (if straddles (fst (br_elo s)) (fst (br_ehi s)) then Some (s, True)
      else
        (let lo2 = br_lo s; hi2 = br_hi s;
             nb = (if lo2 > 0 \<and> hi2 > 0 \<and> is_R_name (var_prop P)
                   then (max (lo2 / 10) (1 / 10 ^ 12), hi2 * 10)
                   else (let c = (1 / 2) * (lo2 + hi2);
                             w0 = hi2 - lo2;
                             w = (if \<bar>w0\<bar> < 1 / 10 ^ 15 then max \<bar>c\<bar> 1 else w0)
                         in (c - 2 * w, c + 2 * w)))
         in do {
              rl \<leftarrow> eval_err L P (fst nb) (br_st s);
              rh \<leftarrow> eval_err L P (snd nb) (snd rl);
              bracket_loop L P k
                \<lparr>br_lo = fst nb, br_hi = snd nb,
                 br_elo = (case fst rl of None \<Rightarrow> br_elo s | Some em \<Rightarrow> em),
                 br_ehi = (case fst rh of None \<Rightarrow> br_ehi s | Some em \<Rightarrow> em),
                 br_st = snd rh\<rparr>
            }))"

record main_state =
  ms_x0 :: real
  ms_y0 :: real
  ms_m0 :: real
  ms_x1 :: real
  ms_y1 :: real
  ms_m1 :: real
  ms_a :: real
  ms_b :: real
  ms_fa :: real
  ms_fb :: real
  ms_best :: "real \<times> real \<times> real"
  ms_iterations :: nat
  ms_history :: "(real \<times> real) list"
  ms_st :: seek_state

text \<open>How the main loop ends: a \<open>return out\<close> with \<open>(value, achieved, error)\<close>, a
  \<open>break\<close> with its \<open>fail_reason\<close>, or the end of the range.\<close>

datatype loop_exit = Converged real real real | Broke string | Exhausted

text \<open>\<open>best_x, best_m, best_err\<close> replaced by a better iterate.\<close>

definition better :: "real \<times> real \<times> real \<Rightarrow> real \<Rightarrow> real \<Rightarrow> real \<Rightarrow> real \<times> real \<times> real" where
  "better best x m y = (if \<bar>y\<bar> < \<bar>snd (snd best)\<bar> then (x, m, y) else best)"

text \<open>The two updates of the best iterate at the head of each pass.\<close>

definition note_bests :: "main_state \<Rightarrow> main_state" where
  "note_bests s =
     (let s2 = s\<lparr>ms_best := better (ms_best s) (ms_x0 s) (ms_m0 s) (ms_y0 s)\<rparr>
      in s2\<lparr>ms_best := better (ms_best s2) (ms_x1 s2) (ms_m1 s2) (ms_y1 s2)\<rparr>)"

text \<open>After a successful evaluation at \<open>x\<close> with error \<open>y\<close> and measurement \<open>m\<close>: the
  history entry and the best iterate; \<open>st\<close> is the searcher's state after the evaluation.\<close>

definition record_iterate :: "main_state \<Rightarrow> seek_state \<Rightarrow> real \<Rightarrow> real \<Rightarrow> real \<Rightarrow> main_state" where
  "record_iterate s st x y m =
     (let s4 = s\<lparr>ms_st := st, ms_history := ms_history s @ [(x, m)]\<rparr>
      in s4\<lparr>ms_best := better (ms_best s4) x m y\<rparr>)"

text \<open>The sign update of bisection.\<close>

definition bisect_update :: "main_state \<Rightarrow> real \<Rightarrow> real \<Rightarrow> main_state" where
  "bisect_update s mid fm =
     (if ms_fa s = 0 then s\<lparr>ms_a := mid, ms_fa := fm\<rparr>
      else if ms_fb s = 0 then s\<lparr>ms_b := mid, ms_fb := fm\<rparr>
      else if (ms_fa s < 0 \<and> fm > 0) \<or> (ms_fa s > 0 \<and> fm < 0) then s\<lparr>ms_b := mid, ms_fb := fm\<rparr>
      else s\<lparr>ms_a := mid, ms_fa := fm\<rparr>)"

text \<open>The secant iterate \<open>x2\<close>: clamped into the bounds, replaced by the midpoint of the
  last two points when it stalls. It is computed only when \<open>y1 - y0\<close> is not zero.\<close>

definition secant_point :: "real \<Rightarrow> real \<Rightarrow> main_state \<Rightarrow> real" where
  "secant_point lo1 hi1 s =
     (let x0 = ms_x0 s; x1 = ms_x1 s; y0 = ms_y0 s; y1 = ms_y1 s;
          x2a = x1 - y1 * (x1 - x0) / (y1 - y0);
          x2b = (if x2a < lo1 then lo1 else x2a);
          x2c = (if x2b > hi1 then hi1 else x2b)
      in if \<bar>x2c - x1\<bar> \<le> max (1 / 10 ^ 15) (1 / 10 ^ 12 * max 1 \<bar>x1\<bar>)
         then (1 / 2) * (x0 + x1) else x2c)"

text \<open>\<open>x0, y0, m0 = x1, y1, m1\<close> and \<open>x1, y1, m1 = x2, y2, m2\<close>.\<close>

definition secant_shift :: "main_state \<Rightarrow> real \<Rightarrow> real \<Rightarrow> real \<Rightarrow> main_state" where
  "secant_shift s x2 y2 m2 =
     s\<lparr>ms_x0 := ms_x1 s, ms_y0 := ms_y1 s, ms_m0 := ms_m1 s,
       ms_x1 := x2, ms_y1 := y2, ms_m1 := m2\<rparr>"

text \<open>The loop \<open>for it in range(int(max_iter))\<close>: \<open>lo1, hi1\<close> are the bounds at its start,
  \<open>k\<close> the iterations left, \<open>it\<close> the loop variable.\<close>

fun main_loop :: "pylib \<Rightarrow> goal_args \<Rightarrow> real \<Rightarrow> real \<Rightarrow> bool \<Rightarrow> nat \<Rightarrow> nat \<Rightarrow> main_state
                   \<Rightarrow> (loop_exit \<times> main_state) option" where
  "main_loop L P lo1 hi1 use_bisect 0 it s = Some (Exhausted, s)"
| "main_loop L P lo1 hi1 use_bisect (Suc k) it s =
     (let s3 = note_bests (s\<lparr>ms_iterations := it + 1\<rparr>)
      in if use_bisect then
           (let mid = (1 / 2) * (ms_a s3 + ms_b s3) in
            do {
              r \<leftarrow> eval_err L P mid (ms_st s3);
              (case fst r of
                 None \<Rightarrow> Some (Broke ''evaluation failed during bisection'', s3\<lparr>ms_st := snd r\<rparr>)
               | Some fmm \<Rightarrow>
                   (let fm = fst fmm; mm = snd fmm;
                        s5 = record_iterate s3 (snd r) mid fm mm
                    in if is_done P fm mm then Some (Converged mid mm fm, s5)
                       else main_loop L P lo1 hi1 use_bisect k (it + 1) (bisect_update s5 mid fm)))
            })
         else if ms_y1 s3 - ms_y0 s3 = 0 then Some (Broke ''secant slope is zero'', s3)
         else
           (let x2 = secant_point lo1 hi1 s3 in
            do {
              r \<leftarrow> eval_err L P x2 (ms_st s3);
              (case fst r of
                 None \<Rightarrow> Some (Broke ''evaluation failed during secant'', s3\<lparr>ms_st := snd r\<rparr>)
               | Some ym \<Rightarrow>
                   (let y2 = fst ym; m2 = snd ym;
                        s5 = record_iterate s3 (snd r) x2 y2 m2
                    in if is_done P y2 m2 then Some (Converged x2 m2 y2, s5)
                       else main_loop L P lo1 hi1 use_bisect k (it + 1) (secant_shift s5 x2 y2 m2)))
            }))"

text \<open>
  The evaluation of the two bounds with the midpoint fallback of method \<open>auto\<close>:
  the bounds, the two results and the state.
\<close>

definition eval_bounds :: "pylib \<Rightarrow> goal_args \<Rightarrow> real \<Rightarrow> real \<Rightarrow> seek_state
     \<Rightarrow> ((real \<times> real) \<times> ((real \<times> real) option \<times> (real \<times> real) option) \<times> seek_state) option" where
  "eval_bounds L P lo0 hi0 st =
     do {
       rl \<leftarrow> eval_err L P lo0 st;
       rh \<leftarrow> eval_err L P hi0 (snd rl);
       (if gmethod P = ''auto'' \<and> (fst rl = None \<or> fst rh = None) then
          (let mid0 = (1 / 2) * (lo0 + hi0) in
           do {
             rm \<leftarrow> eval_err L P mid0 (snd rh);
             Some (case fst rm of
                     None \<Rightarrow> ((lo0, hi0), (fst rl, fst rh), snd rm)
                   | Some em \<Rightarrow>
                       if fst rl = None then ((mid0, hi0), (Some em, fst rh), snd rm)
                       else if fst rh = None then ((lo0, mid0), (fst rl, Some em), snd rm)
                       else ((lo0, hi0), (fst rl, fst rh), snd rm))
           })
        else Some ((lo0, hi0), (fst rl, fst rh), snd rh))
     }"

text \<open>The bracketing phase: it runs for method \<open>auto\<close> when the bounds do not bracket.
  \<open>el = (e_lo, m_lo)\<close>, \<open>eh = (e_hi, m_hi)\<close>; the flag is \<open>bracketed\<close>.\<close>

definition bracket_phase :: "pylib \<Rightarrow> goal_args \<Rightarrow> real \<Rightarrow> real \<Rightarrow> real \<times> real \<Rightarrow> real \<times> real
                            \<Rightarrow> seek_state \<Rightarrow> (bracket_state \<times> bool) option" where
  "bracket_phase L P lo0 hi0 el eh st =
     (let bracketed0 = straddles (fst el) (fst eh);
          s0 = \<lparr>br_lo = lo0, br_hi = hi0, br_elo = el, br_ehi = eh, br_st = st\<rparr>
      in if gmethod P = ''auto'' \<and> \<not> bracketed0 then bracket_loop L P 12 s0
         else Some (s0, bracketed0))"

text \<open>The variables of the main loop before its first pass.\<close>

definition start_state :: "real \<Rightarrow> real \<Rightarrow> real \<times> real \<Rightarrow> real \<times> real \<Rightarrow> (real \<times> real) list
                          \<Rightarrow> seek_state \<Rightarrow> main_state" where
  "start_state lo1 hi1 el1 eh1 hist st =
     \<lparr>ms_x0 = lo1, ms_y0 = fst el1, ms_m0 = snd el1,
      ms_x1 = hi1, ms_y1 = fst eh1, ms_m1 = snd eh1,
      ms_a = lo1, ms_b = hi1, ms_fa = fst el1, ms_fb = fst eh1,
      ms_best = (lo1, snd el1, fst el1),
      ms_iterations = 0,
      ms_history = hist,
      ms_st = st\<rparr>"

text \<open>The result and the circuit after the main loop: the \<open>return out\<close> inside the loop
  keeps the circuit as it is; the code after the loop restores \<open>prev\<close>.\<close>

definition finish_seek :: "goal_args \<Rightarrow> real \<Rightarrow> bool \<Rightarrow> loop_exit \<times> main_state \<Rightarrow> GoalSeekResult \<times> Circuit" where
  "finish_seek P prev bracketed r =
     (let s = snd r in
      case fst r of
        Converged v m e \<Rightarrow>
          (\<lparr>gs_ok = True, gs_value = v, gs_achieved = m, gs_target = target P,
            gs_error = e, gs_iterations = ms_iterations s, gs_message = ''ok'',
            gs_history = ms_history s\<rparr>,
           fst (ms_st s))
      | ex \<Rightarrow>
          (\<lparr>gs_ok = False, gs_value = fst (ms_best s), gs_achieved = fst (snd (ms_best s)),
            gs_target = target P, gs_error = snd (snd (ms_best s)),
            gs_iterations = ms_iterations s,
            gs_message = (if gmethod P = ''auto'' \<and> \<not> bracketed then ''failed: not bracketed''
                          else (case ex of Broke reason \<Rightarrow> reason | _ \<Rightarrow> ''failed'')),
            gs_history = ms_history s\<rparr>,
           set_prop (fst (ms_st s)) (var_cid P) (var_prop P) prev))"

text \<open>The search once both bounds have a value; \<open>prev\<close> is the value to restore.\<close>

definition seek_from :: "pylib \<Rightarrow> goal_args \<Rightarrow> real \<Rightarrow> real \<Rightarrow> real \<Rightarrow> real \<times> real \<Rightarrow> real \<times> real
                        \<Rightarrow> seek_state \<Rightarrow> (GoalSeekResult \<times> Circuit) option" where
  "seek_from L P prev lo0 hi0 el eh st =
     do {
       br \<leftarrow> bracket_phase L P lo0 hi0 el eh st;
       (let bracketed = snd br;
            lo1 = (if bracketed then br_lo (fst br) else lo0);
            hi1 = (if bracketed then br_hi (fst br) else hi0);
            el1 = (if bracketed then br_elo (fst br) else el);
            eh1 = (if bracketed then br_ehi (fst br) else eh);
            use_bisect = ((gmethod P = ''auto'' \<or> gmethod P = ''bisect'') \<and> bracketed)
        in do {
             r \<leftarrow> main_loop L P lo1 hi1 use_bisect (nat (max_iter P)) 0
                    (start_state lo1 hi1 el1 eh1 [(lo0, snd el), (hi0, snd eh)] (br_st (fst br)));
             Some (finish_seek P prev bracketed r)
           })
     }"

definition goal_seek_parameter :: "pylib \<Rightarrow> Circuit \<Rightarrow> goal_args \<Rightarrow> (GoalSeekResult \<times> Circuit) option" where
  "goal_seek_parameter L cir P =
     (case map_of cir (var_cid P) of
        None \<Rightarrow> Some (fail_result (''unknown var_cid: '' @ var_cid P), cir)
      | Some cmp \<Rightarrow>
          if lo P = hi P then Some (fail_result ''lo == hi'', cir)
          else
            (let lo0 = (if lo P > hi P then hi P else lo P);
                 hi0 = (if lo P > hi P then lo P else hi P);
                 prev = (case Mapping.lookup (props cmp) (var_prop P) of None \<Rightarrow> 0 | Some v \<Rightarrow> v)
             in do {
                  bnd \<leftarrow> eval_bounds L P lo0 hi0 (cir, Map.empty);
                  (case fst (snd bnd) of
                     (Some el, Some eh) \<Rightarrow>
                       seek_from L P prev (fst (fst bnd)) (snd (fst bnd)) el eh (snd (snd bnd))
                   | _ \<Rightarrow>
                       Some (fail_result ''evaluation failed at bounds'',
                             set_prop (fst (snd (snd bnd))) (var_cid P) (var_prop P) prev))
                }))"

section \<open>Notions used to state the properties\<close>

text \<open>
  What a result reports for an element of \<open>expanded\<close>: the branch of its parent that
  carries its label, read as the callers read it,
  \<open>comp_branch_i.get(parent, {}).get(label, 0.0)\<close>.
\<close>

definition reported_current :: "SolveResult \<Rightarrow> solver_entry \<Rightarrow> real" where
  "reported_current res e = dict_get (dict_get (comp_branch_i res) (parent e) []) (label e) 0"

text \<open>An element of \<open>expanded\<close> after the stamping loop has passed it.\<close>

definition settle_entry :: "pylib \<Rightarrow> solver_entry \<Rightarrow> solver_entry" where
  "settle_entry L e =
     (if ctype (sc e) = ''socket'' then e
      else (case effective_resistance L (sc e) of None \<Rightarrow> e | Some Rc \<Rightarrow> e\<lparr>sc := snd Rc\<rparr>))"

text \<open>The value the loop over \<open>expanded\<close> stores in \<open>solver_comp_i\<close> for one component.\<close>

definition branch_current :: "pylib \<Rightarrow> (Point \<times> real) list \<Rightarrow> Component list \<Rightarrow> nat \<Rightarrow> real list
                             \<Rightarrow> Component \<Rightarrow> real" where
  "branch_current L nv vs n sol c =
     (if ctype c = ''socket'' then sol ! (n + index_of vs c)
      else (case effective_resistance L c of
              None \<Rightarrow> 0
            | Some Rc \<Rightarrow>
                (case fst Rc of
                   None \<Rightarrow> 0
                 | Some R \<Rightarrow> (dict_get nv (a c) 0 - dict_get nv (b c) 0) / R)))"

text \<open>
  A component of the circuit after a solve that reached the stamping loop: the compound
  switches and the sockets are never handed to \<open>effective_resistance\<close>, every other
  component is.
\<close>

definition settle_component :: "pylib \<Rightarrow> Component \<Rightarrow> Component" where
  "settle_component L c =
     (if ctype c \<in> {''switch_spdt'', ''switch_sp3t'', ''switch_dpst'', ''switch_dpdt'',
                     ''button_momentary'', ''socket''}
      then c
      else (case effective_resistance L c of None \<Rightarrow> c | Some Rc \<Rightarrow> snd Rc))"

text \<open>An element of \<open>expanded\<close> that a further call of \<open>effective_resistance\<close> leaves as it is.\<close>

definition settled :: "pylib \<Rightarrow> solver_entry \<Rightarrow> bool" where
  "settled L e = (ctype (sc e) = ''socket'' \<or> (\<exists>R. effective_resistance L (sc e) = Some (R, sc e)))"

text \<open>Clamping as the specification words it: \<open>x\<close> brought into \<open>[lo, hi]\<close>.\<close>

definition clamp_into :: "real \<Rightarrow> real \<Rightarrow> real \<Rightarrow> real" where
  "clamp_into l u x = (if x < l then l else if u < x then u else x)"

section \<open>Properties\<close>

subsection \<open>Effective resistance\<close>

lemma clamp_into_bounds: "l \<le> u \<Longrightarrow> l \<le> clamp_into l u x \<and> clamp_into l u x \<le> u"
  by (simp add: clamp_into_def)

lemma clamp_swapped_bounds:
  "max (min R (if Rmax < Rmin then Rmin else Rmax)) (if Rmax < Rmin then Rmax else Rmin)
   = clamp_into (min Rmin Rmax) (max Rmin Rmax) (R::real)"
  by (auto simp: clamp_into_def min_def max_def)

text \<open>
  Claim C8. For a rheostat, \<open>effective_resistance\<close> clamps \<open>R\<close> into the interval spanned
  by \<open>Rmin\<close> and \<open>Rmax\<close> (the smaller of the two is the lower bound, so inverted bounds are
  swapped), stores the clamped value under \<open>R\<close> in the component's properties, and returns
  the larger of the clamped value and \<open>1e-6\<close>. The defaults are those of the source:
  \<open>R = 100\<close>, \<open>Rmin = 0\<close>, \<open>Rmax = max(R, 100)\<close>.
\<close>

theorem rheostat_clamps_and_writes_back:
  "ctype cmp = ''rheostat'' \<Longrightarrow>
   effective_resistance L cmp =
     (let R = prop_get cmp ''R'' 100;
          Rmin = prop_get cmp ''Rmin'' 0;
          Rmax = prop_get cmp ''Rmax'' (max R 100);
          Rc = clamp_into (min Rmin Rmax) (max Rmin Rmax) R
      in Some (Some (max Rc (1 / 10 ^ 6)), cmp\<lparr>props := Mapping.update ''R'' Rc (props cmp)\<rparr>))"
  by (simp add: effective_resistance_def Let_def clamp_swapped_bounds)

theorem rheostat_clamps_and_writes_back_witness:
  "effective_resistance lib_unused
     \<lparr>cid = ''r1'', ctype = ''rheostat'', a = (0, 0), b = (4, 0),
      props = Mapping.of_alist [(''R'', 500), (''Rmin'', 200), (''Rmax'', 10)], meta = Mapping.empty\<rparr>
   = Some (Some 200,
       \<lparr>cid = ''r1'', ctype = ''rheostat'', a = (0, 0), b = (4, 0),
        props = Mapping.update ''R'' 200 (Mapping.of_alist [(''R'', 500), (''Rmin'', 200), (''Rmax'', 10)]),
        meta = Mapping.empty\<rparr>)"
  using rheostat_clamps_and_writes_back
    [of "\<lparr>cid = ''r1'', ctype = ''rheostat'', a = (0, 0), b = (4, 0),
          props = Mapping.of_alist [(''R'', 500), (''Rmin'', 200), (''Rmax'', 10)], meta = Mapping.empty\<rparr>" lib_unused]
  by (simp add: prop_get_def clamp_into_def lookup_of_alist)


text \<open>
  Claim C10 says that \<open>effective_resistance\<close> returns "open" or a value of at least
  \<open>R_NEAR_SHORT\<close> for every component with finite properties. The galvanometer branch
  with a configured range divides by \<open>Rcoil\<close> before any floor is applied: with
  \<open>Rcoil = 0\<close> and the range list \<open>"1"\<close> (which the library reads as \<open>[1.0]\<close>: it is
  not a JSON list, and \<open>float("1")\<close> is 1) the call raises ZeroDivisionError instead of
  returning. The sibling branch without ranges returns \<open>max(Rcoil, R_NEAR_SHORT)\<close>.
\<close>

theorem galvanometer_zero_coil_raises:
  "str_strip L ''1'' = ''1'' \<Longrightarrow> json_float_list L ''1'' = None \<Longrightarrow> py_float L ''1'' = Some 1 \<Longrightarrow>
   effective_resistance L
     \<lparr>cid = ''g'', ctype = ''galvanometer'', a = (0, 0), b = (1, 0),
      props = Mapping.of_alist [(''Rcoil'', 0)], meta = Mapping.of_alist [(''ranges_I'', ''1'')]\<rparr>
   = None"
  by (simp add: effective_resistance_def meter_effective_resistance_def meter_full_scale_def
        meter_ranges_def meter_range_index_def parse_float_list_def meta_get_def prop_get_def
        py_int_def py_div_def lookup_of_alist List.map_filter_simps R_NEAR_SHORT_def Let_def)

theorem galvanometer_zero_coil_raises_witness:
  "effective_resistance
     \<lparr>str_strip = (\<lambda>s. s), json_float_list = (\<lambda>s. None), py_float = (\<lambda>s. if s = ''1'' then Some 1 else None)\<rparr>
     \<lparr>cid = ''g'', ctype = ''galvanometer'', a = (0, 0), b = (1, 0),
      props = Mapping.of_alist [(''Rcoil'', 0)], meta = Mapping.of_alist [(''ranges_I'', ''1'')]\<rparr>
   = None"
  by (rule galvanometer_zero_coil_raises) simp_all

subsection \<open>JSON projection\<close>

lemma component_json_roundtrip: "component_of_json (component_to_json c) = Some c"
  by (simp add: component_of_json_def component_to_json_def)

lemma update_fresh_key: "k \<notin> fst ` set al \<Longrightarrow> AList.update k v al = al @ [(k, v)]"
  by (induction al) auto

lemma load_items_appends:
  "distinct (map fst (acc @ xs)) \<Longrightarrow> \<forall>kc\<in>set xs. cid (snd kc) = fst kc \<Longrightarrow>
   load_items (map (\<lambda>kc. component_to_json (snd kc)) xs) acc = Some (acc @ xs)"
proof (induction xs arbitrary: acc)
  case Nil
  then show ?case by simp
next
  case (Cons kc xs)
  obtain k c where kc: "kc = (k, c)" by (cases kc)
  from Cons.prems kc have key: "cid c = k" and fresh: "k \<notin> fst ` set acc" by auto
  from Cons.prems kc have d: "distinct (map fst ((acc @ [(k, c)]) @ xs))" by auto
  from Cons.prems have rest: "\<forall>kc\<in>set xs. cid (snd kc) = fst kc" by simp
  show ?case
    using Cons.IH[OF d rest] key fresh
    by (simp add: kc component_json_roundtrip update_fresh_key)
qed

text \<open>
  Claim C7. For a circuit whose dict is keyed by its components' own identifiers (what
  \<open>add\<close>, \<open>from_json\<close> and \<open>apply_json\<close> build; the keys of a dict are distinct),
  \<open>from_json(to_json(c))\<close> is the same circuit: the same identifiers in the same order,
  each with an equal kind, endpoints, properties and metadata.
\<close>

theorem json_roundtrip:
  "distinct (map fst cir) \<Longrightarrow> \<forall>kc\<in>set cir. cid (snd kc) = fst kc \<Longrightarrow>
   from_json (to_json cir) = Some cir"
  using load_items_appends[of "[]" cir] by (simp add: from_json_def to_json_def)

theorem json_roundtrip_witness:
  "from_json (to_json
     [(''s'', \<lparr>cid = ''s'', ctype = ''socket'', a = (0, 0), b = (0, 10),
              props = Mapping.of_alist [(''V'', 10)], meta = Mapping.empty\<rparr>),
      (''r'', \<lparr>cid = ''r'', ctype = ''resistor'', a = (0, 0), b = (0, 10),
              props = Mapping.of_alist [(''R'', 100)], meta = Mapping.of_alist [(''label'', ''R1'')]\<rparr>)])
   = Some
     [(''s'', \<lparr>cid = ''s'', ctype = ''socket'', a = (0, 0), b = (0, 10),
              props = Mapping.of_alist [(''V'', 10)], meta = Mapping.empty\<rparr>),
      (''r'', \<lparr>cid = ''r'', ctype = ''resistor'', a = (0, 0), b = (0, 10),
              props = Mapping.of_alist [(''R'', 100)], meta = Mapping.of_alist [(''label'', ''R1'')]\<rparr>)]"
  by (rule json_roundtrip) simp_all

subsection \<open>Snapshot history\<close>

text \<open>
  Claim C5 as stated fails: \<open>record\<close> returns before it touches the redo stack when the
  snapshot equals the top of the undo stack. After recording the empty circuit,
  recording a circuit with one wire and undoing, a \<open>record\<close> of the restored circuit
  leaves \<open>can_redo()\<close> true.
\<close>

theorem record_keeps_redo_on_unchanged_snapshot:
  "(case undo (history_record
                 (history_record \<lparr>max_len = 200, undo_stack = [], redo_stack = []\<rparr> [])
                 [(''w'', \<lparr>cid = ''w'', ctype = ''wire'', a = (0, 0), b = (1, 0),
                          props = Mapping.empty, meta = Mapping.empty\<rparr>)])
               [(''w'', \<lparr>cid = ''w'', ctype = ''wire'', a = (0, 0), b = (1, 0),
                        props = Mapping.empty, meta = Mapping.empty\<rparr>)] of
      None \<Rightarrow> False
    | Some r \<Rightarrow> fst r \<and> can_redo (history_record (fst (snd r)) (snd (snd r))))"
  by code_simp

text \<open>
  Claim C5, amended. \<open>record(cir)\<close> clears the redo stack whenever the snapshot differs
  from the top of the undo stack (or the undo stack is empty); when the snapshot equals
  the top, \<open>record\<close> changes nothing, the redo stack included.
\<close>

theorem record_clears_redo_when_snapshot_differs:
  "(undo_stack h = [] \<or> last (undo_stack h) \<noteq> to_json cir \<longrightarrow> \<not> can_redo (history_record h cir)) \<and>
   (undo_stack h \<noteq> [] \<and> last (undo_stack h) = to_json cir \<longrightarrow> history_record h cir = h)"
  by (auto simp: history_record_def can_redo_def Let_def)

theorem record_clears_redo_when_snapshot_differs_witness:
  "\<not> can_redo (history_record \<lparr>max_len = 200, undo_stack = [to_json []], redo_stack = [to_json []]\<rparr>
      [(''w'', \<lparr>cid = ''w'', ctype = ''wire'', a = (0, 0), b = (1, 0),
               props = Mapping.empty, meta = Mapping.empty\<rparr>)]) \<and>
   history_record \<lparr>max_len = 200, undo_stack = [to_json []], redo_stack = [to_json []]\<rparr> []
     = \<lparr>max_len = 200, undo_stack = [to_json []], redo_stack = [to_json []]\<rparr>"
  using record_clears_redo_when_snapshot_differs
          [of "\<lparr>max_len = 200, undo_stack = [to_json []], redo_stack = [to_json []]\<rparr>"
              "[(''w'', \<lparr>cid = ''w'', ctype = ''wire'', a = (0, 0), b = (1, 0),
                       props = Mapping.empty, meta = Mapping.empty\<rparr>)]"]
        record_clears_redo_when_snapshot_differs
          [of "\<lparr>max_len = 200, undo_stack = [to_json []], redo_stack = [to_json []]\<rparr>" "[]"]
  by (simp add: to_json_def)


subsection \<open>Effective resistance, by kind\<close>

lemma er_wire: "ctype c = ''wire'' \<Longrightarrow> effective_resistance L c = Some (Some R_NEAR_SHORT, c)"
  by (simp add: effective_resistance_def)

lemma er_resistor:
  "ctype c = ''resistor'' \<Longrightarrow>
   effective_resistance L c = Some (Some (max (prop_get c ''R'' 100) (1 / 10 ^ 6)), c)"
  by (simp add: effective_resistance_def)

lemma er_bulb:
  "ctype c = ''bulb'' \<Longrightarrow>
   effective_resistance L c = Some (Some (bulb_resistance (prop_get c ''Vr'' 6) (prop_get c ''Wr'' 3)), c)"
  by (simp add: effective_resistance_def)

lemma er_rheostat:
  "ctype c = ''rheostat'' \<Longrightarrow>
   effective_resistance L c =
     (let R = prop_get c ''R'' 100;
          Rmin = prop_get c ''Rmin'' 0;
          Rmax = prop_get c ''Rmax'' (max R 100);
          Rc = clamp_into (min Rmin Rmax) (max Rmin Rmax) R
      in Some (Some (max Rc (1 / 10 ^ 6)), c\<lparr>props := Mapping.update ''R'' Rc (props c)\<rparr>))"
  by (simp add: effective_resistance_def Let_def clamp_swapped_bounds)

lemma er_meter:
  "ctype c = ''ammeter'' \<or> ctype c = ''galvanometer'' \<or> ctype c = ''voltmeter'' \<Longrightarrow>
   effective_resistance L c = map_option (\<lambda>r. (Some r, c)) (meter_effective_resistance L c)"
  by (auto simp: effective_resistance_def)

lemma er_switch:
  "ctype c = ''switch_spst'' \<Longrightarrow>
   effective_resistance L c =
     Some (if py_int (prop_get c ''state'' 1) = 1 then Some R_NEAR_SHORT else None, c)"
  by (simp add: effective_resistance_def)

lemma er_button:
  "ctype c = ''button_momentary'' \<Longrightarrow>
   effective_resistance L c =
     Some (if py_int (prop_get c ''pressed'' 0) = 1 then Some R_NEAR_SHORT else None, c)"
  by (simp add: effective_resistance_def)

lemma er_other:
  "ctype c \<notin> {''wire'', ''resistor'', ''bulb'', ''rheostat'', ''ammeter'', ''galvanometer'',
               ''voltmeter'', ''switch_spst'', ''button_momentary''} \<Longrightarrow>
   effective_resistance L c = Some (None, c)"
  by (simp add: effective_resistance_def)

lemma max_keeps_floor: "(f::real) \<le> m \<Longrightarrow> f \<le> max y m"
  by simp

lemma near_short_micro: "R_NEAR_SHORT \<le> 1 / 10 ^ 6"
  by (simp add: R_NEAR_SHORT_def)

lemma meter_resistance_floor:
  "meter_effective_resistance L cmp = Some r \<Longrightarrow> R_NEAR_SHORT \<le> r"
  unfolding meter_effective_resistance_def Let_def
  by (auto simp del: max.bounded_iff simp: bind_eq_Some_conv R_NEAR_SHORT_def
           split: if_splits option.splits)


lemma effective_resistance_floor:
  assumes "effective_resistance L c = Some (Some r, c')"
  shows "R_NEAR_SHORT \<le> r"
proof -
  consider (wire) "ctype c = ''wire''" | (resistor) "ctype c = ''resistor''"
    | (bulb) "ctype c = ''bulb''" | (rheostat) "ctype c = ''rheostat''"
    | (meter) "ctype c = ''ammeter'' \<or> ctype c = ''galvanometer'' \<or> ctype c = ''voltmeter''"
    | (switch) "ctype c = ''switch_spst''" | (button) "ctype c = ''button_momentary''"
    | (other) "ctype c \<notin> {''wire'', ''resistor'', ''bulb'', ''rheostat'', ''ammeter'', ''galvanometer'',
                           ''voltmeter'', ''switch_spst'', ''button_momentary''}"
    by blast
  then show ?thesis
  proof cases
    case wire
    with assms show ?thesis by (simp add: er_wire)
  next
    case resistor
    with assms have "r = max (prop_get c ''R'' 100) (1 / 10 ^ 6)" by (auto simp: er_resistor)
    then show ?thesis using max_keeps_floor[OF near_short_micro] by simp
  next
    case bulb
    with assms have "r = bulb_resistance (prop_get c ''Vr'' 6) (prop_get c ''Wr'' 3)"
      by (auto simp: er_bulb)
    then show ?thesis
      using max_keeps_floor[OF near_short_micro]
      by (simp add: bulb_resistance_def R_NEAR_SHORT_def del: max.bounded_iff)
  next
    case rheostat
    with assms obtain y where "r = max y (1 / 10 ^ 6)" by (auto simp: er_rheostat Let_def)
    then show ?thesis using max_keeps_floor[OF near_short_micro] by simp
  next
    case meter
    with assms have "meter_effective_resistance L c = Some r" by (auto simp: er_meter)
    then show ?thesis by (rule meter_resistance_floor)
  next
    case switch
    with assms show ?thesis by (simp add: er_switch split: if_splits)
  next
    case button
    with assms show ?thesis by (simp add: er_button split: if_splits)
  next
    case other
    with assms show ?thesis using er_other[OF other] by simp
  qed
qed

lemma effective_resistance_positive:
  "effective_resistance L c = Some (Some r, c') \<Longrightarrow> 0 < r"
  using effective_resistance_floor[of L c r c'] by (simp add: R_NEAR_SHORT_def)

lemma solve_circuit_assemble:
  "solve_circuit L cir =
     (let comps = map snd cir;
          ground = ground_of comps;
          expanded = map sc (expand_all comps);
          ni = node_index_of ground (nodes_of expanded);
          vsources = filter (\<lambda>c. ctype c = ''socket'') expanded
      in if length ni + length vsources = 0 then Some (empty_result\<lparr>ok := True\<rparr>, cir)
         else do {
           sys \<leftarrow> assemble L cir;
           (case solve_linear (fst sys) (fst (snd sys)) of
              None \<Rightarrow>
                Some (empty_result\<lparr>ok := False, singular := True, warnings := [SingularMatrix]\<rparr>,
                      write_back cir (snd (snd sys)))
            | Some sol \<Rightarrow>
                map_option (\<lambda>r. (fst r, write_back cir (snd r)))
                  (post_process L ground ni vsources comps (snd (snd sys)) sol))
         })"
  by (simp add: solve_circuit_def assemble_def Let_def split: option.splits bind_splits)

lemma gauss_cols_append:
  "gauss_cols n (xs @ ys) s = (case gauss_cols n xs s of None \<Rightarrow> None | Some s' \<Rightarrow> gauss_cols n ys s')"
  by (induction xs arbitrary: s) (auto split: option.splits)

lemma pivot_fold_below:
  "v0 < e \<Longrightarrow> \<forall>r\<in>set rs. \<bar>M ! r ! col\<bar> < e \<Longrightarrow>
   fst (fold (\<lambda>r bp. (let v = \<bar>M ! r ! col\<bar> in if v > fst bp then (v, r) else bp)) rs (v0, p0)) < e"
  by (induction rs arbitrary: v0 p0) (auto simp: Let_def)

lemma pivot_search_below:
  "col < n \<Longrightarrow> \<forall>r. col \<le> r \<and> r < n \<longrightarrow> \<bar>M ! r ! col\<bar> < e \<Longrightarrow> fst (pivot_search M n col) < e"
  unfolding pivot_search_def by (rule pivot_fold_below) auto

lemma solve_linear_singular:
  assumes "col < length A"
    and "gauss_cols (length A) [0..<col] (A, bv) = Some (M, x)"
    and "\<forall>r. col \<le> r \<and> r < length A \<longrightarrow> \<bar>M ! r ! col\<bar> < eps"
  shows "solve_linear A bv = None"
proof -
  have split: "[0..<length A] = [0..<col] @ col # [Suc col..<length A]"
  proof -
    have "[0..<col + (length A - col)] = [0..<col] @ [col..<col + (length A - col)]"
      by (rule upt_add_eq_append) simp
    then show ?thesis using assms(1) by (simp add: upt_conv_Cons)
  qed
  have "gauss_step (length A) col (M, x) = None"
    using pivot_search_below[OF assms(1) assms(3)] by (simp add: gauss_step_def Let_def)
  then show ?thesis
    by (simp add: solve_linear_def split gauss_cols_append assms(2))
qed

subsection \<open>Singular systems and warnings\<close>

lemma length_add_at: "length (add_at A i j v) = length A"
  by (simp add: add_at_def)

lemma length_stamp_conductance: "length (stamp_conductance ni c g A) = length A"
  by (simp add: stamp_conductance_def Let_def length_add_at split: option.splits)

lemma length_stamp_components:
  "stamp_components L ni es A = Some r \<Longrightarrow> length (fst r) = length A"
proof (induction es arbitrary: A r)
  case Nil
  then show ?case by auto
next
  case (Cons e es)
  show ?case
  proof (cases "ctype (sc e) = ''socket''")
    case True
    with Cons.prems obtain r' where "stamp_components L ni es A = Some r'" "fst r = fst r'"
      by auto
    then show ?thesis using Cons.IH by simp
  next
    case False
    with Cons.prems obtain Rc A1 r' where
      A1: "(case fst Rc of None \<Rightarrow> Some A
            | Some R \<Rightarrow> map_option (\<lambda>g. stamp_conductance ni (snd Rc) g A) (py_div 1 R)) = Some A1"
      and r': "stamp_components L ni es A1 = Some r'" and fr: "fst r = fst r'"
      by (auto simp: bind_eq_Some_conv)
    from A1 have "length A1 = length A"
      by (auto simp: length_stamp_conductance split: option.splits)
    with Cons.IH[OF r'] fr show ?thesis by simp
  qed
qed

lemma length_stamp_sources: "length (fst (stamp_sources ni n cs k Ab)) = length (fst Ab)"
  by (induction cs arbitrary: k Ab) (auto simp: Let_def length_add_at split: option.splits)

lemma length_assemble:
  assumes "assemble L cir = Some (A, bv, ents)"
  shows "length A =
         length (node_index_of (ground_of (map snd cir)) (nodes_of (map sc (expand_all (map snd cir)))))
         + length (filter (\<lambda>c. ctype c = ''socket'') (map sc (expand_all (map snd cir))))"
  using assms
  by (auto simp: assemble_def Let_def bind_eq_Some_conv length_stamp_sources
           dest!: length_stamp_components)

lemma solve_circuit_nonempty:
  assumes "length (node_index_of (ground_of (map snd cir)) (nodes_of (map sc (expand_all (map snd cir)))))
           + length (filter (\<lambda>c. ctype c = ''socket'') (map sc (expand_all (map snd cir)))) \<noteq> 0"
  shows "solve_circuit L cir =
          assemble L cir \<bind> (\<lambda>sys.
            case solve_linear (fst sys) (fst (snd sys)) of
              None \<Rightarrow>
                Some (empty_result\<lparr>ok := False, singular := True, warnings := [SingularMatrix]\<rparr>,
                      write_back cir (snd (snd sys)))
            | Some sol \<Rightarrow>
                map_option (\<lambda>r. (fst r, write_back cir (snd r)))
                  (post_process L (ground_of (map snd cir))
                     (node_index_of (ground_of (map snd cir)) (nodes_of (map sc (expand_all (map snd cir)))))
                     (filter (\<lambda>c. ctype c = ''socket'') (map sc (expand_all (map snd cir))))
                     (map snd cir) (snd (snd sys)) sol))"
  unfolding solve_circuit_assemble Let_def using assms by (simp only: if_False)

text \<open>
  Claim C2. If the elimination of the assembled system reaches some column whose
  candidate pivots (the entries of that column from the diagonal down, in the matrix as
  the earlier columns left it) are all below \<open>1e-12\<close> in absolute value, then
  \<open>solve_circuit\<close> returns \<open>ok = false\<close>, \<open>singular = true\<close>, the singular-matrix
  warning as the only warning, and every map empty.
\<close>

theorem singular_pivot_gives_singular_result:
  assumes "assemble L cir = Some (A, bv, ents)"
    and "col < length A"
    and "gauss_cols (length A) [0..<col] (A, bv) = Some (M, x)"
    and "\<forall>r. col \<le> r \<and> r < length A \<longrightarrow> \<bar>M ! r ! col\<bar> < eps"
  shows "\<exists>cir'. solve_circuit L cir =
           Some (\<lparr>ok = False, node_v = [], comp_i = [], warnings = [SingularMatrix], singular = True,
                  comp_flags = [], comp_branch_i = []\<rparr>, cir')"
proof -
  have none: "solve_linear A bv = None"
    using assms(2-4) by (rule solve_linear_singular)
  have "length (node_index_of (ground_of (map snd cir)) (nodes_of (map sc (expand_all (map snd cir)))))
        + length (filter (\<lambda>c. ctype c = ''socket'') (map sc (expand_all (map snd cir)))) \<noteq> 0"
    using length_assemble[OF assms(1)] assms(2) by linarith
  from solve_circuit_nonempty[OF this, of L] show ?thesis
    using assms(1) none by (simp add: empty_result_def)
qed

theorem singular_pivot_gives_singular_result_witness:
  "\<exists>cir'. solve_circuit lib_unused
      [(''sw'', \<lparr>cid = ''sw'', ctype = ''switch_spst'', a = (0, 0), b = (1, 0),
                props = Mapping.of_alist [(''state'', 0)], meta = Mapping.empty\<rparr>)]
    = Some (\<lparr>ok = False, node_v = [], comp_i = [], warnings = [SingularMatrix], singular = True,
             comp_flags = [], comp_branch_i = []\<rparr>, cir')"
proof (rule singular_pivot_gives_singular_result
         [where col = 0 and A = "[[0]]" and bv = "[0]" and M = "[[0]]" and x = "[0]"
            and ents = "[\<lparr>sc = \<lparr>cid = ''sw'', ctype = ''switch_spst'', a = (0, 0), b = (1, 0),
                               props = Mapping.of_alist [(''state'', 0)], meta = Mapping.empty\<rparr>,
                          parent = ''sw'', label = ''main'', origin = Some 0\<rparr>]"])
  show "assemble lib_unused
          [(''sw'', \<lparr>cid = ''sw'', ctype = ''switch_spst'', a = (0, 0), b = (1, 0),
                    props = Mapping.of_alist [(''state'', 0)], meta = Mapping.empty\<rparr>)]
        = Some ([[0]], [0],
                [\<lparr>sc = \<lparr>cid = ''sw'', ctype = ''switch_spst'', a = (0, 0), b = (1, 0),
                         props = Mapping.of_alist [(''state'', 0)], meta = Mapping.empty\<rparr>,
                  parent = ''sw'', label = ''main'', origin = Some 0\<rparr>])"
    by code_simp
  show "(0::nat) < length [[0::real]]" by simp
  show "gauss_cols (length [[0::real]]) [0..<0] ([[0]], [0]) = Some ([[0]], [0])" by simp
  show "\<forall>r. 0 \<le> r \<and> r < length [[0::real]] \<longrightarrow> \<bar>[[0::real]] ! r ! 0\<bar> < eps"
    by (simp add: eps_def)
qed

lemma expand_component_sockets:
  "filter (\<lambda>c. ctype c = ''socket'') (map sc (expand_component i c))
   = (if ctype c = ''socket'' then [c] else [])"
  by (simp add: expand_component_def surrogate_def Let_def)

lemma expand_sockets_from:
  "filter (\<lambda>c. ctype c = ''socket'')
     (map sc (concat (map (\<lambda>ic. expand_component (fst ic) (snd ic)) (enumerate n comps))))
   = filter (\<lambda>c. ctype c = ''socket'') comps"
  by (induction comps arbitrary: n) (simp_all add: expand_component_sockets)

lemma expand_sockets:
  "filter (\<lambda>c. ctype c = ''socket'') (map sc (expand_all comps))
   = filter (\<lambda>c. ctype c = ''socket'') comps"
  by (simp add: expand_all_def expand_sockets_from)

text \<open>
  Claim C9 as stated fails: the warning is guarded by \<open>if vsources and all(...)\<close>. A
  circuit of one resistor has no socket, so every socket carries less than \<open>1e-6\<close>; the
  solve succeeds and no warning is emitted.
\<close>

theorem no_socket_no_open_loop_warning:
  "filter (\<lambda>kc. ctype (snd kc) = ''socket'')
     [(''r'', \<lparr>cid = ''r'', ctype = ''resistor'', a = (0, 0), b = (0, 10),
              props = Mapping.empty, meta = Mapping.empty\<rparr>)] = [] \<and>
   map_option (\<lambda>rc. (ok (fst rc), warnings (fst rc)))
     (solve_circuit lib_unused
        [(''r'', \<lparr>cid = ''r'', ctype = ''resistor'', a = (0, 0), b = (0, 10),
                 props = Mapping.empty, meta = Mapping.empty\<rparr>)])
   = Some (True, [])"
  by code_simp

text \<open>
  Claim C9, amended. For every circuit on which the solve returns: if the solve succeeds,
  the circuit has at least one socket and every socket's reported current is below
  \<open>1e-6\<close> in absolute value, the open-loop warning is the last warning of the result;
  and if the circuit has no socket, the open-loop warning is not among the warnings of
  the result.
\<close>

theorem open_loop_warning_by_sockets:
  assumes run: "solve_circuit L cir = Some (res, cir')"
  shows "(ok res \<and> (\<exists>kc\<in>set cir. ctype (snd kc) = ''socket'') \<and>
          (\<forall>kc\<in>set cir. ctype (snd kc) = ''socket''
             \<longrightarrow> \<bar>dict_get (comp_i res) (cid (snd kc)) 0\<bar> < 1 / 10 ^ 6)
          \<longrightarrow> warnings res \<noteq> [] \<and> last (warnings res) = OpenLoop) \<and>
         ((\<forall>kc\<in>set cir. ctype (snd kc) \<noteq> ''socket'') \<longrightarrow> OpenLoop \<notin> set (warnings res))"
proof (intro conjI impI)
  let ?comps = "map snd cir"
  let ?g = "ground_of ?comps"
  let ?ni = "node_index_of ?g (nodes_of (map sc (expand_all ?comps)))"
  let ?vs = "filter (\<lambda>c. ctype c = ''socket'') (map sc (expand_all ?comps))"
  have vseq: "?vs = filter (\<lambda>c. ctype c = ''socket'') ?comps" by (rule expand_sockets)
  have form: "res = empty_result\<lparr>ok := False, singular := True, warnings := [SingularMatrix]\<rparr> \<or>
              (\<exists>ws. warnings res = open_loop_warning (comp_i res) ?vs ws \<and> (?vs = [] \<longrightarrow> ws = []))"
    if N: "length ?ni + length ?vs \<noteq> 0"
  proof -
    note solve_circuit_nonempty[OF N, of L]
    with run obtain sys where
      r: "(case solve_linear (fst sys) (fst (snd sys)) of
              None \<Rightarrow>
                Some (empty_result\<lparr>ok := False, singular := True, warnings := [SingularMatrix]\<rparr>,
                      write_back cir (snd (snd sys)))
            | Some sol \<Rightarrow>
                map_option (\<lambda>r. (fst r, write_back cir (snd r)))
                  (post_process L ?g ?ni ?vs ?comps (snd (snd sys)) sol)) = Some (res, cir')"
      by (auto simp only: bind_eq_Some_conv)
    show ?thesis
    proof (cases "solve_linear (fst sys) (fst (snd sys))")
      case None
      with r show ?thesis by simp
    next
      case (Some sol)
      with r obtain r' where
        pp: "post_process L ?g ?ni ?vs ?comps (snd (snd sys)) sol = Some r'" and res: "res = fst r'"
        by auto
      from pp have "\<exists>ws. warnings res = open_loop_warning (comp_i res) ?vs ws \<and> (?vs = [] \<longrightarrow> ws = [])"
        unfolding post_process_def Let_def res
        by (auto simp: bind_eq_Some_conv source_overcurrent_def)
      then show ?thesis by (rule disjI2)
    qed
  qed
  {
    assume h: "ok res \<and> (\<exists>kc\<in>set cir. ctype (snd kc) = ''socket'') \<and>
          (\<forall>kc\<in>set cir. ctype (snd kc) = ''socket''
             \<longrightarrow> \<bar>dict_get (comp_i res) (cid (snd kc)) 0\<bar> < 1 / 10 ^ 6)"
    have vs: "?vs \<noteq> []" using h unfolding vseq by (auto simp: filter_empty_conv)
    then have "length ?vs \<noteq> 0" by (simp only: length_0_conv not_False_eq_True)
    then have N: "length ?ni + length ?vs \<noteq> 0" by linarith
    have quiet: "list_all (\<lambda>c. \<bar>dict_get (comp_i res) (cid c) 0\<bar> < 1 / 10 ^ 6) ?vs"
      using h unfolding vseq by (auto simp: list_all_iff)
    from h have "res \<noteq> empty_result\<lparr>ok := False, singular := True, warnings := [SingularMatrix]\<rparr>"
      by auto
    with form[OF N] obtain ws where "warnings res = open_loop_warning (comp_i res) ?vs ws"
      by blast
    with vs quiet have both: "warnings res \<noteq> [] \<and> last (warnings res) = OpenLoop"
      by (simp add: open_loop_warning_def)
    from both show "warnings res \<noteq> []" by simp
    from both show "last (warnings res) = OpenLoop" by simp
  }
  {
    assume nos: "\<forall>kc\<in>set cir. ctype (snd kc) \<noteq> ''socket''"
    have vs: "?vs = []" using nos unfolding vseq by (auto simp: filter_empty_conv)
    have clean: "OpenLoop \<notin> set (warnings res)"
    proof (cases "length ?ni + length ?vs = 0")
      case True
      from run[unfolded solve_circuit_assemble Let_def if_P[OF True]]
      have "res = empty_result\<lparr>ok := True\<rparr>" by simp
      then show ?thesis by (simp add: empty_result_def)
    next
      case False
      from form[OF False] show ?thesis
      proof
        assume "res = empty_result\<lparr>ok := False, singular := True, warnings := [SingularMatrix]\<rparr>"
        then show ?thesis by simp
      next
        assume "\<exists>ws. warnings res = open_loop_warning (comp_i res) ?vs ws \<and> (?vs = [] \<longrightarrow> ws = [])"
        with vs obtain ws where "warnings res = open_loop_warning (comp_i res) ?vs ws" and "ws = []"
          by blast
        with vs show ?thesis by (simp add: open_loop_warning_def)
      qed
    qed
    from clean show "OpenLoop \<notin> set (warnings res)" .
  }
qed

theorem open_loop_warning_by_sockets_witness:
  "(warnings (fst (the (solve_circuit lib_unused
      [(''s'', \<lparr>cid = ''s'', ctype = ''socket'', a = (0, 0), b = (0, 10),
               props = Mapping.of_alist [(''V'', 10)], meta = Mapping.empty\<rparr>),
       (''sw'', \<lparr>cid = ''sw'', ctype = ''switch_spst'', a = (0, 0), b = (0, 10),
                props = Mapping.of_alist [(''state'', 0)], meta = Mapping.empty\<rparr>)]))) \<noteq> [] \<and>
    last (warnings (fst (the (solve_circuit lib_unused
      [(''s'', \<lparr>cid = ''s'', ctype = ''socket'', a = (0, 0), b = (0, 10),
               props = Mapping.of_alist [(''V'', 10)], meta = Mapping.empty\<rparr>),
       (''sw'', \<lparr>cid = ''sw'', ctype = ''switch_spst'', a = (0, 0), b = (0, 10),
                props = Mapping.of_alist [(''state'', 0)], meta = Mapping.empty\<rparr>)])))) = OpenLoop) \<and>
   OpenLoop \<notin> set (warnings (fst (the (solve_circuit lib_unused
      [(''r'', \<lparr>cid = ''r'', ctype = ''resistor'', a = (0, 0), b = (0, 10),
               props = Mapping.of_alist [(''R'', 3)], meta = Mapping.empty\<rparr>),
       (''l'', \<lparr>cid = ''l'', ctype = ''bulb'', a = (0, 10), b = (0, 0),
               props = Mapping.empty, meta = Mapping.empty\<rparr>)]))))"
proof -
  let ?c1 = "[(''s'', \<lparr>cid = ''s'', ctype = ''socket'', a = (0, 0), b = (0, 10),
               props = Mapping.of_alist [(''V'', 10)], meta = Mapping.empty\<rparr>),
       (''sw'', \<lparr>cid = ''sw'', ctype = ''switch_spst'', a = (0, 0), b = (0, 10),
                props = Mapping.of_alist [(''state'', 0)], meta = Mapping.empty\<rparr>)]"
  let ?c2 = "[(''r'', \<lparr>cid = ''r'', ctype = ''resistor'', a = (0, 0), b = (0, 10),
               props = Mapping.of_alist [(''R'', 3)], meta = Mapping.empty\<rparr>),
       (''l'', \<lparr>cid = ''l'', ctype = ''bulb'', a = (0, 10), b = (0, 0),
               props = Mapping.empty, meta = Mapping.empty\<rparr>)]"
  have run1: "solve_circuit lib_unused ?c1
              = Some (fst (the (solve_circuit lib_unused ?c1)), snd (the (solve_circuit lib_unused ?c1)))"
    by code_simp
  have ok1: "ok (fst (the (solve_circuit lib_unused ?c1)))" by code_simp
  have ex1: "\<exists>kc\<in>set ?c1. ctype (snd kc) = ''socket''" by simp
  have quiet1: "\<forall>kc\<in>set ?c1. ctype (snd kc) = ''socket''
             \<longrightarrow> \<bar>dict_get (comp_i (fst (the (solve_circuit lib_unused ?c1)))) (cid (snd kc)) 0\<bar> < 1 / 10 ^ 6"
    by code_simp
  have run2: "solve_circuit lib_unused ?c2
              = Some (fst (the (solve_circuit lib_unused ?c2)), snd (the (solve_circuit lib_unused ?c2)))"
    by code_simp
  have nos2: "\<forall>kc\<in>set ?c2. ctype (snd kc) \<noteq> ''socket''" by simp
  from open_loop_warning_by_sockets[OF run1] ok1 ex1 quiet1
  have first: "warnings (fst (the (solve_circuit lib_unused ?c1))) \<noteq> [] \<and>
               last (warnings (fst (the (solve_circuit lib_unused ?c1)))) = OpenLoop"
    by blast
  from open_loop_warning_by_sockets[OF run2] nos2
  have second: "OpenLoop \<notin> set (warnings (fst (the (solve_circuit lib_unused ?c2))))"
    by blast
  from first second show ?thesis by (intro conjI) simp_all
qed


subsection \<open>Goal seek\<close>

text \<open>
  Claim C4 says that after a successful search the property holds the returned value.
  \<open>eval_err\<close> writes the property only when the point is not in its memo table. A
  socket feeds one resistor, the variable is the socket's \<open>V\<close>, the measurement is the
  voltage of the socket's node, the target is 1, the bounds are 1 and 2, the method is
  \<open>secant\<close>. The error at the lower bound is 0, so the first secant iterate is the
  lower bound again: the memo table answers, the test for convergence succeeds, and the
  search returns \<open>ok\<close> with value 1 while the property still holds 2, the last point
  that was really evaluated.
\<close>

theorem cached_winner_is_not_written_back:
  "map_option (\<lambda>rc. (gs_ok (fst rc), gs_value (fst rc),
                       map_option (\<lambda>c. Mapping.lookup (props c) ''V'') (map_of (snd rc) ''s'')))
     (goal_seek_parameter lib_unused
        [(''s'', \<lparr>cid = ''s'', ctype = ''socket'', a = (1, 0), b = (0, 0),
                 props = Mapping.of_alist [(''V'', 5)], meta = Mapping.empty\<rparr>),
         (''r'', \<lparr>cid = ''r'', ctype = ''resistor'', a = (1, 0), b = (0, 0),
                 props = Mapping.of_alist [(''R'', 1)], meta = Mapping.empty\<rparr>)]
        \<lparr>var_cid = ''s'', var_prop = ''V'', target = 1,
         gmeasure = \<lparr>m_kind = ''node'', m_node = Some (1, 0), m_cid = None, m_field = ''Iab'',
                     m_branch = None, m_abs = False\<rparr>,
         lo = 1, hi = 2, tol_abs = 1 / 10 ^ 9, tol_rel = 1 / 10 ^ 6, max_iter = 60,
         gmethod = ''secant'', reject_if_overcurrent = False\<rparr>)
   = Some (True, 1, Some (Some 2))"
  by code_simp

text \<open>
  Claim C3 says that a search that fails leaves the circuit as it was before the call.
  The search reads the old value with \<open>comp.props.get(var_prop)\<close>, takes 0.0 for a
  missing one, and stores that on every failure path after the bounds are evaluated. A
  resistor without \<open>R\<close> (every reader of the property takes 100 for it) and a
  measurement that cannot be taken: the search fails at the bounds and the resistor is
  left with \<open>R = 0\<close>, a property it did not have.
\<close>

theorem absent_property_is_left_at_zero:
  "Mapping.lookup (props \<lparr>cid = ''r'', ctype = ''resistor'', a = (0, 0), b = (0, 0),
                          props = Mapping.empty, meta = Mapping.empty\<rparr>) ''R'' = None \<and>
   map_option (\<lambda>rc. (gs_ok (fst rc),
                       map_option (\<lambda>c. Mapping.lookup (props c) ''R'') (map_of (snd rc) ''r'')))
     (goal_seek_parameter lib_unused
        [(''r'', \<lparr>cid = ''r'', ctype = ''resistor'', a = (0, 0), b = (0, 0),
                 props = Mapping.empty, meta = Mapping.empty\<rparr>)]
        \<lparr>var_cid = ''r'', var_prop = ''R'', target = 1,
         gmeasure = \<lparr>m_kind = ''node'', m_node = None, m_cid = None, m_field = ''Iab'',
                     m_branch = None, m_abs = False\<rparr>,
         lo = 1, hi = 2, tol_abs = 1 / 10 ^ 9, tol_rel = 1 / 10 ^ 6, max_iter = 60,
         gmethod = ''auto'', reject_if_overcurrent = False\<rparr>)
   = Some (False, Some (Some 0))"
  by code_simp

lemma keys_update_present: "map_of al k = Some x \<Longrightarrow> map fst (AList.update k v al) = map fst al"
  by (induction al) (auto split: if_splits)

lemma keys_set_prop: "map fst (set_prop cir k p v) = map fst cir"
  by (auto simp: set_prop_def keys_update_present split: option.splits)

lemma keys_write_back: "map fst (write_back cir ents) = map fst cir"
proof -
  have "map fst (fold (\<lambda>e cr. case origin e of None \<Rightarrow> cr | Some i \<Rightarrow> cr[i := (fst (cr ! i), sc e)]) ents cr)
        = map fst cr" for cr
  proof (induction ents arbitrary: cr)
    case Nil
    then show ?case by simp
  next
    case (Cons e es)
    have "map fst (cr[i := (fst (cr ! i), x)]) = map fst cr" for i x
      by (simp add: map_update) (metis list_update_id map_update)
    then show ?case by (simp add: Cons.IH split: option.splits)
  qed
  then show ?thesis by (simp add: write_back_def)
qed

lemma keys_solve_circuit: "solve_circuit L cir = Some (res, cir') \<Longrightarrow> map fst cir' = map fst cir"
  by (auto simp: solve_circuit_def Let_def bind_eq_Some_conv keys_write_back split: if_splits option.splits)

lemma keys_goal_measure: "goal_measure L res cir spec = Some (mv, cir') \<Longrightarrow> map fst cir' = map fst cir"
  by (auto simp: goal_measure_def Let_def bind_eq_Some_conv keys_update_present
           split: if_splits option.splits)

lemma keys_eval_err: "eval_err L P x st = Some (r, st') \<Longrightarrow> map fst (fst st') = map fst (fst st)"
  by (auto simp: eval_err_def Let_def bind_eq_Some_conv keys_set_prop
           split: if_splits option.splits dest!: keys_solve_circuit keys_goal_measure)


lemma keys_bracket_loop:
  "bracket_loop L P k s = Some (s', f) \<Longrightarrow> map fst (fst (br_st s')) = map fst (fst (br_st s))"
proof (induction k arbitrary: s)
  case 0
  then show ?case by simp
next
  case (Suc k)
  show ?case
  proof (cases "straddles (fst (br_elo s)) (fst (br_ehi s))")
    case True
    with Suc.prems show ?thesis by simp
  next
    case False
    with Suc.prems obtain rl rh s1 x1 x2 where
      rl: "eval_err L P x1 (br_st s) = Some rl" and rh: "eval_err L P x2 (snd rl) = Some rh"
      and rec: "bracket_loop L P k s1 = Some (s', f)" and s1: "br_st s1 = snd rh"
      by (auto simp: Let_def bind_eq_Some_conv)
    from keys_eval_err[of L P x1 "br_st s" "fst rl" "snd rl"] rl
    have "map fst (fst (snd rl)) = map fst (fst (br_st s))" by simp
    moreover from keys_eval_err[of L P x2 "snd rl" "fst rh" "snd rh"] rh
    have "map fst (fst (snd rh)) = map fst (fst (snd rl))" by simp
    ultimately show ?thesis using Suc.IH[OF rec] s1 by simp
  qed
qed

lemma st_note_bests [simp]: "ms_st (note_bests s) = ms_st s"
  by (simp add: note_bests_def Let_def)

lemma st_record_iterate [simp]: "ms_st (record_iterate s st x y m) = st"
  by (simp add: record_iterate_def Let_def)

lemma st_bisect_update [simp]: "ms_st (bisect_update s mid fm) = ms_st s"
  by (simp add: bisect_update_def)

lemma st_secant_shift [simp]: "ms_st (secant_shift s x2 y2 m2) = ms_st s"
  by (simp add: secant_shift_def)

lemma main_loop_step:
  assumes "main_loop L P lo1 hi1 ub (Suc k) it s = Some (ex, s')"
  shows "ms_st s' = ms_st s \<or>
         (\<exists>x r. eval_err L P x (ms_st s) = Some r \<and>
                 (ms_st s' = snd r \<or>
                  (\<exists>s1. ms_st s1 = snd r \<and> main_loop L P lo1 hi1 ub k (it + 1) s1 = Some (ex, s'))))"
proof -
  define s3 where "s3 = note_bests (s\<lparr>ms_iterations := it + 1\<rparr>)"
  have st3: "ms_st s3 = ms_st s" by (simp add: s3_def)
  show ?thesis
  proof (cases ub)
    case True
    define mid where "mid = (1 / 2) * (ms_a s3 + ms_b s3)"
    from assms True obtain r where r: "eval_err L P mid (ms_st s3) = Some r"
      and rest: "(case fst r of
                 None \<Rightarrow> Some (Broke ''evaluation failed during bisection'', s3\<lparr>ms_st := snd r\<rparr>)
               | Some fmm \<Rightarrow>
                   (let fm = fst fmm; mm = snd fmm;
                        s5 = record_iterate s3 (snd r) mid fm mm
                    in if is_done P fm mm then Some (Converged mid mm fm, s5)
                       else main_loop L P lo1 hi1 ub k (it + 1) (bisect_update s5 mid fm))) = Some (ex, s')"
      unfolding main_loop.simps Let_def s3_def[symmetric] mid_def[symmetric]
      by (auto simp only: if_True bind_eq_Some_conv Let_def)
    show ?thesis
    proof (cases "fst r")
      case None
      with rest have "ms_st s' = snd r" by auto
      with r show ?thesis unfolding st3 by blast
    next
      case (Some fmm)
      show ?thesis
      proof (cases "is_done P (fst fmm) (snd fmm)")
        case True
        with rest Some have "ms_st s' = snd r" by (auto simp: Let_def)
        with r show ?thesis unfolding st3 by blast
      next
        case False
        with rest Some have
          "main_loop L P lo1 hi1 ub k (it + 1)
             (bisect_update (record_iterate s3 (snd r) mid (fst fmm) (snd fmm)) mid (fst fmm)) = Some (ex, s')"
          by (simp add: Let_def)
        moreover have "ms_st (bisect_update (record_iterate s3 (snd r) mid (fst fmm) (snd fmm)) mid (fst fmm)) = snd r"
          by simp
        ultimately show ?thesis using r unfolding st3 by blast
      qed
    qed
  next
    case False
    note nb = False
    show ?thesis
    proof (cases "ms_y1 s3 - ms_y0 s3 = 0")
      case True
      with assms nb have "s' = s3"
        unfolding main_loop.simps Let_def s3_def[symmetric] by simp
      with st3 show ?thesis by simp
    next
      case False
      define x2 where "x2 = secant_point lo1 hi1 s3"
      from assms nb False obtain r where r: "eval_err L P x2 (ms_st s3) = Some r"
        and rest: "(case fst r of
                 None \<Rightarrow> Some (Broke ''evaluation failed during secant'', s3\<lparr>ms_st := snd r\<rparr>)
               | Some ym \<Rightarrow>
                   (let y2 = fst ym; m2 = snd ym;
                        s5 = record_iterate s3 (snd r) x2 y2 m2
                    in if is_done P y2 m2 then Some (Converged x2 m2 y2, s5)
                       else main_loop L P lo1 hi1 ub k (it + 1) (secant_shift s5 x2 y2 m2))) = Some (ex, s')"
        unfolding main_loop.simps Let_def s3_def[symmetric] x2_def[symmetric]
        by (auto simp only: if_False bind_eq_Some_conv Let_def)
      show ?thesis
      proof (cases "fst r")
        case None
        with rest have "ms_st s' = snd r" by auto
        with r show ?thesis unfolding st3 by blast
      next
        case (Some ym)
        show ?thesis
        proof (cases "is_done P (fst ym) (snd ym)")
          case True
          with rest Some have "ms_st s' = snd r" by (auto simp: Let_def)
          with r show ?thesis unfolding st3 by blast
        next
          case False
          with rest Some have
            "main_loop L P lo1 hi1 ub k (it + 1)
               (secant_shift (record_iterate s3 (snd r) x2 (fst ym) (snd ym)) x2 (fst ym) (snd ym)) = Some (ex, s')"
            by (simp add: Let_def)
          moreover have "ms_st (secant_shift (record_iterate s3 (snd r) x2 (fst ym) (snd ym)) x2 (fst ym) (snd ym)) = snd r"
            by simp
          ultimately show ?thesis using r unfolding st3 by blast
        qed
      qed
    qed
  qed
qed

lemma keys_main_loop:
  "main_loop L P lo1 hi1 ub k it s = Some (ex, s') \<Longrightarrow>
   map fst (fst (ms_st s')) = map fst (fst (ms_st s))"
proof (induction k arbitrary: it s)
  case 0
  then show ?case by simp
next
  case (Suc k)
  from main_loop_step[OF Suc.prems] show ?case
  proof (elim disjE exE conjE)
    assume "ms_st s' = ms_st s"
    then show ?thesis by simp
  next
    fix x r
    assume "eval_err L P x (ms_st s) = Some r" "ms_st s' = snd r"
    then show ?thesis using keys_eval_err[of L P x "ms_st s" "fst r" "snd r"] by simp
  next
    fix x r s1
    assume r: "eval_err L P x (ms_st s) = Some r" and s1: "ms_st s1 = snd r"
      and rec: "main_loop L P lo1 hi1 ub k (it + 1) s1 = Some (ex, s')"
    from keys_eval_err[of L P x "ms_st s" "fst r" "snd r"] r
    have "map fst (fst (snd r)) = map fst (fst (ms_st s))" by simp
    with Suc.IH[OF rec] s1 show ?thesis by simp
  qed
qed

lemma keys_eval_bounds:
  assumes "eval_bounds L P lo0 hi0 st = Some (bs, es, st')"
  shows "map fst (fst st') = map fst (fst st)"
proof -
  from assms obtain rl rh where rl: "eval_err L P lo0 st = Some rl"
    and rh: "eval_err L P hi0 (snd rl) = Some rh"
    and rest: "(if gmethod P = ''auto'' \<and> (fst rl = None \<or> fst rh = None) then
          (let mid0 = (1 / 2) * (lo0 + hi0) in
           do {
             rm \<leftarrow> eval_err L P mid0 (snd rh);
             Some (case fst rm of
                     None \<Rightarrow> ((lo0, hi0), (fst rl, fst rh), snd rm)
                   | Some em \<Rightarrow>
                       if fst rl = None then ((mid0, hi0), (Some em, fst rh), snd rm)
                       else if fst rh = None then ((lo0, mid0), (fst rl, Some em), snd rm)
                       else ((lo0, hi0), (fst rl, fst rh), snd rm))
           })
        else Some ((lo0, hi0), (fst rl, fst rh), snd rh)) = Some (bs, es, st')"
    unfolding eval_bounds_def by (auto simp only: bind_eq_Some_conv)
  from keys_eval_err[of L P lo0 st "fst rl" "snd rl"] rl
  have k1: "map fst (fst (snd rl)) = map fst (fst st)" by simp
  from keys_eval_err[of L P hi0 "snd rl" "fst rh" "snd rh"] rh
  have k2: "map fst (fst (snd rh)) = map fst (fst (snd rl))" by simp
  show ?thesis
  proof (cases "gmethod P = ''auto'' \<and> (fst rl = None \<or> fst rh = None)")
    case False
    with rest have "st' = snd rh" by auto
    with k1 k2 show ?thesis by simp
  next
    case True
    from rest[unfolded if_P[OF True] Let_def bind_eq_Some_conv option.inject]
    obtain rm where rm: "eval_err L P ((1 / 2) * (lo0 + hi0)) (snd rh) = Some rm"
      and tup: "(case fst rm of
                     None \<Rightarrow> ((lo0, hi0), (fst rl, fst rh), snd rm)
                   | Some em \<Rightarrow>
                       if fst rl = None then (((1 / 2) * (lo0 + hi0), hi0), (Some em, fst rh), snd rm)
                       else if fst rh = None then ((lo0, (1 / 2) * (lo0 + hi0)), (fst rl, Some em), snd rm)
                       else ((lo0, hi0), (fst rl, fst rh), snd rm)) = (bs, es, st')"
      by blast
    have "snd (snd (case fst rm of
                     None \<Rightarrow> ((lo0, hi0), (fst rl, fst rh), snd rm)
                   | Some em \<Rightarrow>
                       if fst rl = None then (((1 / 2) * (lo0 + hi0), hi0), (Some em, fst rh), snd rm)
                       else if fst rh = None then ((lo0, (1 / 2) * (lo0 + hi0)), (fst rl, Some em), snd rm)
                       else ((lo0, hi0), (fst rl, fst rh), snd rm))) = snd rm"
      by (simp split: option.splits)
    with tup have st': "st' = snd rm" by simp
    from keys_eval_err[of L P _ "snd rh" "fst rm" "snd rm"] rm
    have "map fst (fst (snd rm)) = map fst (fst (snd rh))" by simp
    with k1 k2 st' show ?thesis by simp
  qed
qed

lemma lookup_set_prop:
  "map_of cir k = Some c \<Longrightarrow>
   \<exists>c'. map_of (set_prop cir k p v) k = Some c' \<and> Mapping.lookup (props c') p = Some v"
  by (simp add: set_prop_def update_conv' lookup_update)

lemma key_stays:
  assumes "map fst cir' = map fst cir" and "map_of cir k = Some c"
  shows "\<exists>c'. map_of cir' k = Some c'"
proof -
  from assms(2) have "k \<in> set (map fst cir)" by (auto dest: map_of_SomeD intro: rev_image_eqI)
  with assms(1) have "k \<in> fst ` set cir'" by (metis set_map)
  then show ?thesis by (cases "map_of cir' k") (auto simp: map_of_eq_None_iff)
qed

lemma st_start_state [simp]: "ms_st (start_state lo1 hi1 el1 eh1 hist st) = st"
  by (simp add: start_state_def)

lemma keys_bracket_phase:
  "bracket_phase L P lo0 hi0 el eh st = Some br \<Longrightarrow> map fst (fst (br_st (fst br))) = map fst (fst st)"
  using keys_bracket_loop[of L P 12 _ "fst br" "snd br"]
  by (auto simp: bracket_phase_def Let_def split: if_splits)

lemma seek_from_parts:
  assumes "seek_from L P prev lo0 hi0 el eh st = Some (res, cir')"
  shows "\<exists>br r lo1 hi1 ub s0.
           bracket_phase L P lo0 hi0 el eh st = Some br \<and> ms_st s0 = br_st (fst br) \<and>
           main_loop L P lo1 hi1 ub (nat (max_iter P)) 0 s0 = Some r \<and>
           finish_seek P prev (snd br) r = (res, cir')"
  using assms unfolding seek_from_def Let_def bind_eq_Some_conv option.inject
  by (metis st_start_state)

lemma seek_from_failure:
  assumes run: "seek_from L P prev lo0 hi0 el eh st = Some (res, cir')"
    and fail: "\<not> gs_ok res"
    and present: "map_of (fst st) (var_cid P) = Some c"
  shows "\<exists>c'. map_of cir' (var_cid P) = Some c' \<and> Mapping.lookup (props c') (var_prop P) = Some prev"
proof -
  from seek_from_parts[OF run] obtain br r lo1 hi1 ub s0 where
    br: "bracket_phase L P lo0 hi0 el eh st = Some br" and s0: "ms_st s0 = br_st (fst br)"
    and run2: "main_loop L P lo1 hi1 ub (nat (max_iter P)) 0 s0 = Some r"
    and out: "finish_seek P prev (snd br) r = (res, cir')"
    by blast
  from run2 have "main_loop L P lo1 hi1 ub (nat (max_iter P)) 0 s0 = Some (fst r, snd r)" by simp
  from keys_main_loop[OF this] s0 keys_bracket_phase[OF br]
  have k2: "map fst (fst (ms_st (snd r))) = map fst (fst st)" by simp
  from key_stays[OF k2 present] obtain c1 where c1: "map_of (fst (ms_st (snd r))) (var_cid P) = Some c1"
    by blast
  from out fail have "cir' = set_prop (fst (ms_st (snd r))) (var_cid P) (var_prop P) prev"
    by (cases "fst r") (auto simp: finish_seek_def Let_def)
  with lookup_set_prop[OF c1] show ?thesis by simp
qed

text \<open>
  What the failure paths store, for a component present in the circuit: with
  \<open>lo == hi\<close> the circuit is untouched; otherwise the variable property holds
  \<open>prev\<close> afterwards, the value from before the call when there was one. The defect
  above is confined to a property that was absent.
\<close>

lemma failed_seek_stores_prev:
  assumes "map_of cir (var_cid P) = Some c"
    and "goal_seek_parameter L cir P = Some (res, cir')"
    and "\<not> gs_ok res"
  shows "(lo P = hi P \<longrightarrow> cir' = cir) \<and>
         (lo P \<noteq> hi P \<longrightarrow>
            (\<exists>c'. map_of cir' (var_cid P) = Some c' \<and>
                  Mapping.lookup (props c') (var_prop P)
                  = Some (case Mapping.lookup (props c) (var_prop P) of None \<Rightarrow> 0 | Some v \<Rightarrow> v)))"
proof (intro conjI impI)
  assume "lo P = hi P"
  with assms(1,2) show "cir' = cir" by (simp add: goal_seek_parameter_def)
next
  assume ne: "lo P \<noteq> hi P"
  let ?prev = "(case Mapping.lookup (props c) (var_prop P) of None \<Rightarrow> 0 | Some v \<Rightarrow> v)"
  let ?lo0 = "(if lo P > hi P then hi P else lo P)"
  let ?hi0 = "(if lo P > hi P then lo P else hi P)"
  from assms(2)[unfolded goal_seek_parameter_def assms(1) option.case if_not_P[OF ne] Let_def
                         bind_eq_Some_conv]
  obtain bnd where bnd: "eval_bounds L P ?lo0 ?hi0 (cir, Map.empty) = Some bnd"
    and rest: "(case fst (snd bnd) of
                     (Some el, Some eh) \<Rightarrow>
                       seek_from L P ?prev (fst (fst bnd)) (snd (fst bnd)) el eh (snd (snd bnd))
                   | _ \<Rightarrow>
                       Some (fail_result ''evaluation failed at bounds'',
                             set_prop (fst (snd (snd bnd))) (var_cid P) (var_prop P) ?prev)) = Some (res, cir')"
    by blast
  from keys_eval_bounds[of L P ?lo0 ?hi0 "(cir, Map.empty)" "fst bnd" "fst (snd bnd)" "snd (snd bnd)"] bnd
  have "map fst (fst (snd (snd bnd))) = map fst cir" by simp
  from key_stays[OF this assms(1)] obtain c1 where
    c1: "map_of (fst (snd (snd bnd))) (var_cid P) = Some c1" by blast
  show "\<exists>c'. map_of cir' (var_cid P) = Some c' \<and> Mapping.lookup (props c') (var_prop P) = Some ?prev"
  proof (cases "\<exists>el eh. fst (snd bnd) = (Some el, Some eh)")
    case True
    then obtain el eh where "fst (snd bnd) = (Some el, Some eh)" by blast
    with rest have "seek_from L P ?prev (fst (fst bnd)) (snd (fst bnd)) el eh (snd (snd bnd)) = Some (res, cir')"
      by simp
    from seek_from_failure[OF this assms(3) c1] show ?thesis .
  next
    case False
    with rest have "cir' = set_prop (fst (snd (snd bnd))) (var_cid P) (var_prop P) ?prev"
      by (cases "fst (snd bnd)") (auto split: option.splits)
    with lookup_set_prop[OF c1] show ?thesis by simp
  qed
qed

lemma failed_seek_stores_prev_example:
  "\<exists>c'. map_of (snd (the (goal_seek_parameter lib_unused
        [(''r'', \<lparr>cid = ''r'', ctype = ''resistor'', a = (0, 0), b = (0, 0),
                 props = Mapping.of_alist [(''R'', 7)], meta = Mapping.empty\<rparr>)]
        \<lparr>var_cid = ''r'', var_prop = ''R'', target = 1,
         gmeasure = \<lparr>m_kind = ''node'', m_node = None, m_cid = None, m_field = ''Iab'',
                     m_branch = None, m_abs = False\<rparr>,
         lo = 1, hi = 2, tol_abs = 1 / 10 ^ 9, tol_rel = 1 / 10 ^ 6, max_iter = 60,
         gmethod = ''auto'', reject_if_overcurrent = False\<rparr>))) ''r'' = Some c' \<and>
     Mapping.lookup (props c') ''R'' = Some 7"
proof -
  let ?cir = "[(''r'', \<lparr>cid = ''r'', ctype = ''resistor'', a = (0, 0), b = (0, 0),
                 props = Mapping.of_alist [(''R'', 7)], meta = Mapping.empty\<rparr>)]"
  let ?P = "\<lparr>var_cid = ''r'', var_prop = ''R'', target = 1,
         gmeasure = \<lparr>m_kind = ''node'', m_node = None, m_cid = None, m_field = ''Iab'',
                     m_branch = None, m_abs = False\<rparr>,
         lo = 1, hi = 2, tol_abs = 1 / 10 ^ 9, tol_rel = 1 / 10 ^ 6, max_iter = 60,
         gmethod = ''auto'', reject_if_overcurrent = False\<rparr>"
  have h1: "map_of ?cir (var_cid ?P) = Some \<lparr>cid = ''r'', ctype = ''resistor'', a = (0, 0), b = (0, 0),
                 props = Mapping.of_alist [(''R'', 7)], meta = Mapping.empty\<rparr>"
    by simp
  have h2: "goal_seek_parameter lib_unused ?cir ?P
            = Some (fst (the (goal_seek_parameter lib_unused ?cir ?P)),
                    snd (the (goal_seek_parameter lib_unused ?cir ?P)))"
    by code_simp
  have h3: "\<not> gs_ok (fst (the (goal_seek_parameter lib_unused ?cir ?P)))"
    by code_simp
  from failed_seek_stores_prev[OF h1 h2 h3]
  show ?thesis by (simp add: lookup_of_alist)
qed


subsection \<open>A second call of effective_resistance changes nothing\<close>

lemma clamp_into_idem: "l \<le> u \<Longrightarrow> clamp_into l u (clamp_into l u x) = clamp_into l u x"
  by (simp add: clamp_into_def)

lemma prop_get_update_same: "prop_get (c\<lparr>props := Mapping.update k v (props c)\<rparr>) k d = v"
  by (simp add: prop_get_def lookup_update)

lemma prop_get_update_other:
  "k' \<noteq> k \<Longrightarrow> prop_get (c\<lparr>props := Mapping.update k v (props c)\<rparr>) k' d = prop_get c k' d"
  by (simp add: prop_get_def lookup_update_neq)

lemma rheostat_default_max_stable:
  "max (clamp_into (min Rmin (max R 100)) (max Rmin (max R 100)) R) 100 = max R (100::real)"
  by (auto simp: clamp_into_def max_def min_def)

lemma er_settled:
  assumes "effective_resistance L c = Some (R, c')"
  shows "effective_resistance L c' = Some (R, c') \<and> cid c' = cid c \<and> ctype c' = ctype c
         \<and> a c' = a c \<and> b c' = b c"
proof (cases "ctype c = ''rheostat''")
  case False
  have "c' = c"
    using assms False unfolding effective_resistance_def Let_def
    by (simp split: if_splits) (auto split: if_splits)
  with assms show ?thesis by simp
next
  case True
  define R0 where "R0 = prop_get c ''R'' 100"
  define Rmin where "Rmin = prop_get c ''Rmin'' 0"
  define Rmax where "Rmax = prop_get c ''Rmax'' (max R0 100)"
  define Rc where "Rc = clamp_into (min Rmin Rmax) (max Rmin Rmax) R0"
  from assms True have R: "R = Some (max Rc (1 / 10 ^ 6))"
    and c': "c' = c\<lparr>props := Mapping.update ''R'' Rc (props c)\<rparr>"
    by (simp_all add: er_rheostat Let_def R0_def Rmin_def Rmax_def Rc_def)
  have t': "ctype c' = ''rheostat''" using True c' by simp
  have g1: "prop_get c' ''R'' 100 = Rc" unfolding c' by (rule prop_get_update_same)
  have g2: "prop_get c' ''Rmin'' 0 = Rmin" unfolding c' Rmin_def by (rule prop_get_update_other) simp
  have g3: "prop_get c' ''Rmax'' (max Rc 100) = Rmax"
  proof (cases "Mapping.lookup (props c) ''Rmax''")
    case None
    have "max Rc 100 = max R0 100"
      using rheostat_default_max_stable[of Rmin R0] None
      by (simp add: Rc_def Rmax_def prop_get_def)
    moreover have "prop_get c' ''Rmax'' (max Rc 100) = prop_get c ''Rmax'' (max Rc 100)"
      unfolding c' by (rule prop_get_update_other) simp
    ultimately show ?thesis by (simp add: Rmax_def)
  next
    case (Some v)
    then show ?thesis by (simp add: c' prop_get_def lookup_update_neq Rmax_def)
  qed
  have idem: "clamp_into (min Rmin Rmax) (max Rmin Rmax) Rc = Rc"
    unfolding Rc_def by (rule clamp_into_idem) simp
  have upd: "c'\<lparr>props := Mapping.update ''R'' Rc (props c')\<rparr> = c'"
    unfolding c' by (simp add: Mapping.update_update)
  have "effective_resistance L c' = Some (R, c')"
    by (simp add: er_rheostat[OF t'] Let_def g1 g2 g3 idem R upd)
  then show ?thesis by (simp add: c' )
qed


subsection \<open>What the post-processing loops compute\<close>

lemma stamp_components_entries:
  "stamp_components L ni es A = Some r \<Longrightarrow> snd r = map (settle_entry L) es"
proof (induction es arbitrary: A r)
  case Nil
  then show ?case by auto
next
  case (Cons e es)
  show ?case
  proof (cases "ctype (sc e) = ''socket''")
    case True
    with Cons.prems obtain r' where r': "stamp_components L ni es A = Some r'" and "snd r = e # snd r'"
      by auto
    with Cons.IH[OF r'] True show ?thesis by (simp add: settle_entry_def)
  next
    case False
    from Cons.prems[unfolded stamp_components.simps if_not_P[OF False] bind_eq_Some_conv]
    obtain Rc A1 r' where er: "effective_resistance L (sc e) = Some Rc"
      and r': "stamp_components L ni es A1 = Some r'"
      and r: "Some (fst r', e\<lparr>sc := snd Rc\<rparr> # snd r') = Some r"
      by blast
    from r have "snd r = e\<lparr>sc := snd Rc\<rparr> # snd r'" by auto
    with Cons.IH[OF r'] er False show ?thesis by (simp add: settle_entry_def)
  qed
qed

lemma solver_currents_value:
  "solver_currents L nv vs n sol es acc = Some sr \<Longrightarrow>
   fst sr = fold (\<lambda>e d. AList.update (cid (sc e)) (branch_current L nv vs n sol (sc e)) d) es acc"
proof (induction es arbitrary: acc sr)
  case Nil
  then show ?case by auto
next
  case (Cons e es)
  show ?case
  proof (cases "ctype (sc e) = ''socket''")
    case True
    from Cons.prems True obtain sr' where
      sr': "solver_currents L nv vs n sol es
              (AList.update (cid (sc e)) (sol ! (n + index_of vs (sc e))) acc) = Some sr'"
      and "fst sr = fst sr'"
      by (auto simp: Let_def)
    with Cons.IH[OF sr'] True show ?thesis by (simp add: branch_current_def)
  next
    case False
    from Cons.prems[unfolded solver_currents.simps Let_def if_not_P[OF False] bind_eq_Some_conv]
    obtain Rc I sr' where er: "effective_resistance L (sc e) = Some Rc"
      and I: "(case fst Rc of None \<Rightarrow> Some 0
               | Some R \<Rightarrow> py_div (dict_get nv (a (sc e)) 0 - dict_get nv (b (sc e)) 0) R) = Some I"
      and sr': "solver_currents L nv vs n sol es (AList.update (cid (sc e)) I acc) = Some sr'"
      and sr: "Some (fst sr', e\<lparr>sc := snd Rc\<rparr> # snd sr') = Some sr"
      by blast
    from I have "I = branch_current L nv vs n sol (sc e)"
      using False er by (auto simp: branch_current_def py_div_def split: option.splits if_splits)
    moreover from sr have "fst sr = fst sr'" by auto
    ultimately show ?thesis using Cons.IH[OF sr'] by simp
  qed
qed

text \<open>The branch map the loop over \<open>solver_parent\<close> builds does not depend on the
  elements it looks up.\<close>

lemma branch_loop_value:
  "branch_loop L sl sci items st = Some st' \<Longrightarrow>
   bs_branch_i st' =
     fold (\<lambda>item cbi. AList.update (snd item)
                         (AList.update (dict_get sl (fst item) ''main'') (dict_get sci (fst item) 0)
                            (dict_get cbi (snd item) []))
                         cbi)
          items (bs_branch_i st)"
proof (induction items arbitrary: st)
  case Nil
  then show ?case by simp
next
  case (Cons item items)
  define st1 where "st1 = st\<lparr>bs_branch_i :=
                     AList.update (snd item)
                       (AList.update (dict_get sl (fst item) ''main'') (dict_get sci (fst item) 0)
                          (dict_get (bs_branch_i st) (snd item) []))
                       (bs_branch_i st)\<rparr>"
  from Cons.prems have "\<exists>st2. bs_branch_i st2 = bs_branch_i st1 \<and> branch_loop L sl sci items st2 = Some st'"
    unfolding branch_loop.simps Let_def st1_def[symmetric]
    by (auto simp: bind_eq_Some_conv split: option.splits if_splits)
       (rule exI, rule conjI[rotated], assumption, simp)+
  then obtain st2 where "bs_branch_i st2 = bs_branch_i st1" "branch_loop L sl sci items st2 = Some st'"
    by blast
  with Cons.IH[of st2] show ?case by (simp add: st1_def)
qed

lemma fold_update_distinct:
  "distinct (map f xs) \<Longrightarrow> f ` set xs \<inter> fst ` set acc = {} \<Longrightarrow>
   fold (\<lambda>x d. AList.update (f x) (g x) d) xs acc = acc @ map (\<lambda>x. (f x, g x)) xs"
proof (induction xs arbitrary: acc)
  case Nil
  then show ?case by simp
next
  case (Cons x xs)
  from Cons.prems have fresh: "f x \<notin> fst ` set acc" by auto
  have "f ` set xs \<inter> fst ` set (acc @ [(f x, g x)]) = {}" using Cons.prems by auto
  with Cons.IH[of "acc @ [(f x, g x)]"] Cons.prems fresh show ?case
    by (simp add: update_fresh_key)
qed

lemma nested_lookup_update:
  "dict_get (dict_get (AList.update p' (AList.update l' v' (dict_get cbi p' [])) cbi) p []) l (0::real)
   = (if p = p' \<and> l = l' then v' else dict_get (dict_get cbi p []) l 0)"
  by (simp add: dict_get_def update_conv')

lemma branch_fold_lookup:
  assumes "distinct (map (\<lambda>t. (fst t, fst (snd t))) T)" and "(p, l, v) \<in> set T"
  shows "dict_get (dict_get
           (fold (\<lambda>t cbi. AList.update (fst t) (AList.update (fst (snd t)) (snd (snd t)) (dict_get cbi (fst t) [])) cbi)
                 T c0) p []) l (0::real) = v"
  using assms
proof (induction T rule: rev_induct)
  case Nil
  then show ?case by simp
next
  case (snoc t T)
  show ?case
  proof (cases "(p, l, v) = t")
    case True
    then show ?thesis by (auto simp: nested_lookup_update)
  next
    case False
    with snoc.prems have mem: "(p, l, v) \<in> set T" by auto
    with snoc.prems have "(fst t, fst (snd t)) \<noteq> (p, l)" by (auto simp: image_iff)
    moreover from snoc.prems have "distinct (map (\<lambda>t. (fst t, fst (snd t))) T)" by simp
    ultimately show ?thesis using snoc.IH mem by (auto simp: nested_lookup_update)
  qed
qed


subsection \<open>Expanded components and their identifiers\<close>

lemma expand_component_shape:
  assumes "e \<in> set (expand_component i c)"
  shows "cid (sc e) = (if label e = ''main'' then parent e else parent e @ '':'' @ label e)"
proof -
  consider (spdt) "ctype c = ''switch_spdt''" | (sp3t) "ctype c = ''switch_sp3t''"
    | (dpst) "ctype c = ''switch_dpst''" | (dpdt) "ctype c = ''switch_dpdt''"
    | (button) "ctype c = ''button_momentary''"
    | (other) "ctype c \<notin> {''switch_spdt'', ''switch_sp3t'', ''switch_dpst'', ''switch_dpdt'',
                           ''button_momentary''}"
    by blast
  then show ?thesis
  proof cases
    case spdt
    with assms show ?thesis
      by (cases "prop_int c ''throw'' 0 = 0") (simp_all add: expand_component_def surrogate_def Let_def)
  next
    case sp3t
    with assms show ?thesis
      by (simp add: expand_component_def surrogate_def Let_def digit_str_def)
  next
    case dpst
    with assms show ?thesis
      by (auto simp: expand_component_def surrogate_def Let_def)
  next
    case dpdt
    with assms show ?thesis
      by (auto simp: expand_component_def surrogate_def Let_def)
  next
    case button
    with assms show ?thesis
      by (simp add: expand_component_def surrogate_def Let_def)
  next
    case other
    with assms show ?thesis
      by (simp add: expand_component_def)
  qed
qed


lemma expand_all_shape:
  assumes "e \<in> set (expand_all comps)"
  shows "cid (sc e) = (if label e = ''main'' then parent e else parent e @ '':'' @ label e)"
proof -
  from assms obtain ic where "e \<in> set (expand_component (fst ic) (snd ic))"
    by (auto simp: expand_all_def)
  then show ?thesis by (rule expand_component_shape)
qed

lemma settle_entry_keeps_all:
  "parent (settle_entry L e) = parent e \<and> label (settle_entry L e) = label e \<and>
   origin (settle_entry L e) = origin e \<and>
   cid (sc (settle_entry L e)) = cid (sc e) \<and> ctype (sc (settle_entry L e)) = ctype (sc e) \<and>
   a (sc (settle_entry L e)) = a (sc e) \<and> b (sc (settle_entry L e)) = b (sc e)"
proof (cases "effective_resistance L (sc e)")
  case None
  then show ?thesis by (simp add: settle_entry_def)
next
  case (Some Rc)
  then have "effective_resistance L (sc e) = Some (fst Rc, snd Rc)" by simp
  from er_settled[OF this] Some show ?thesis by (simp add: settle_entry_def)
qed

lemma settle_entry_keeps:
  "parent (settle_entry L e) = parent e" "label (settle_entry L e) = label e"
  "origin (settle_entry L e) = origin e"
  "cid (sc (settle_entry L e)) = cid (sc e)" "ctype (sc (settle_entry L e)) = ctype (sc e)"
  "a (sc (settle_entry L e)) = a (sc e)" "b (sc (settle_entry L e)) = b (sc e)"
  using settle_entry_keeps_all[of L e] by simp_all

lemma settle_entry_settled:
  assumes "effective_resistance L (sc e) = Some (R, c')" and "ctype (sc e) \<noteq> ''socket''"
  shows "effective_resistance L (sc (settle_entry L e)) = Some (R, sc (settle_entry L e))"
  using er_settled[OF assms(1)] assms by (simp add: settle_entry_def)

lemma map_of_distinct_map:
  "distinct (map f xs) \<Longrightarrow> x \<in> set xs \<Longrightarrow> map_of (map (\<lambda>x. (f x, g x)) xs) (f x) = Some (g x)"
  by (induction xs) (auto simp: image_iff)

lemma fold_update_distinct_empty:
  "distinct (map f xs) \<Longrightarrow> fold (\<lambda>x d. AList.update (f x) (g x) d) xs [] = map (\<lambda>x. (f x, g x)) xs"
  using fold_update_distinct[of f xs "[]" g] by simp


subsection \<open>Reported branch currents\<close>

lemma assemble_entries:
  "assemble L cir = Some sys \<Longrightarrow> snd (snd sys) = map (settle_entry L) (expand_all (map snd cir))"
  by (auto simp: assemble_def Let_def bind_eq_Some_conv dest!: stamp_components_entries)

lemma post_process_parts:
  assumes "post_process L g ni vs comps ents sol = Some r"
  shows "node_v (fst r) = (g, 0) # map (\<lambda>ni1. (fst ni1, sol ! snd ni1)) ni \<and>
         comp_branch_i (fst r) =
           fold (\<lambda>item cbi. AList.update (snd item)
                   (AList.update (dict_get (solver_label_of ents) (fst item) ''main'')
                      (dict_get
                         (fold (\<lambda>e d. AList.update (cid (sc e))
                                  (branch_current L ((g, 0) # map (\<lambda>ni1. (fst ni1, sol ! snd ni1)) ni)
                                     vs (length ni) sol (sc e)) d) ents [])
                         (fst item) 0)
                      (dict_get cbi (snd item) []))
                   cbi)
                (solver_parent_of ents) []"
proof -
  let ?nv = "(g, 0) # map (\<lambda>ni1. (fst ni1, sol ! snd ni1)) ni"
  from assms[unfolded post_process_def Let_def bind_eq_Some_conv]
  obtain sr st where sr: "solver_currents L ?nv vs (length ni) sol ents [] = Some sr"
    and st: "branch_loop L (solver_label_of ents) (fst sr) (solver_parent_of ents)
               \<lparr>bs_entries = snd sr, bs_branch_i = [], bs_flags = []\<rparr> = Some st"
    and r: "node_v (fst r) = ?nv \<and> comp_branch_i (fst r) = bs_branch_i st"
    by auto
  from solver_currents_value[OF sr] branch_loop_value[OF st] r show ?thesis by simp
qed

lemma solve_circuit_empty:
  assumes "length (node_index_of (ground_of (map snd cir)) (nodes_of (map sc (expand_all (map snd cir)))))
           + length (filter (\<lambda>c. ctype c = ''socket'') (map sc (expand_all (map snd cir)))) = 0"
  shows "solve_circuit L cir = Some (empty_result\<lparr>ok := True\<rparr>, cir)"
  unfolding solve_circuit_assemble Let_def by (subst if_P[OF assms]) (rule refl)

lemma distinct_through:
  "distinct (map f xs) \<Longrightarrow> \<forall>x\<in>set xs. f x = h (k x) \<Longrightarrow> distinct (map k xs)"
  by (induction xs) (auto simp: image_iff)

text \<open>
  Claim C1, amended. For every circuit whose solve succeeds and whose expanded solver
  components carry pairwise distinct identifiers, and for every expanded component that
  is not a source and whose \<open>effective_resistance\<close> returns: the current reported for
  it is \<open>(Va - Vb) / R\<close> for a finite resistance \<open>R\<close>, with \<open>Va\<close> and \<open>Vb\<close> read
  from the result's node voltages (0 for a node that is absent), and exactly 0 for an open
  component.
\<close>

theorem reported_current_is_ohmic:
  assumes run: "solve_circuit L cir = Some (res, cir')"
    and ok: "ok res"
    and dist: "distinct (map (\<lambda>e. cid (sc e)) (expand_all (map snd cir)))"
    and mem: "e \<in> set (expand_all (map snd cir))"
    and ns: "ctype (sc e) \<noteq> ''socket''"
    and er: "effective_resistance L (sc e) = Some (R, c')"
  shows "reported_current res e =
         (case R of None \<Rightarrow> 0
          | Some r \<Rightarrow> (dict_get (node_v res) (a (sc e)) 0 - dict_get (node_v res) (b (sc e)) 0) / r)"
proof -
  let ?comps = "map snd cir"
  let ?g = "ground_of ?comps"
  let ?ents = "expand_all ?comps"
  let ?ni = "node_index_of ?g (nodes_of (map sc ?ents))"
  let ?vs = "filter (\<lambda>c. ctype c = ''socket'') (map sc ?ents)"
  show ?thesis
  proof (cases "length ?ni + length ?vs = 0")
    case True
    from run[unfolded solve_circuit_empty[OF True]] have "res = empty_result\<lparr>ok := True\<rparr>"
      by simp
    then show ?thesis
      by (simp add: reported_current_def dict_get_def empty_result_def split: option.splits)
  next
    case False
    from run[unfolded solve_circuit_nonempty[OF False] bind_eq_Some_conv]
    obtain sys where sys: "assemble L cir = Some sys"
      and rest: "(case solve_linear (fst sys) (fst (snd sys)) of
              None \<Rightarrow>
                Some (empty_result\<lparr>ok := False, singular := True, warnings := [SingularMatrix]\<rparr>,
                      write_back cir (snd (snd sys)))
            | Some sol \<Rightarrow>
                map_option (\<lambda>r. (fst r, write_back cir (snd r)))
                  (post_process L ?g ?ni ?vs ?comps (snd (snd sys)) sol)) = Some (res, cir')"
      by blast
    from rest ok obtain sol r where
      pp: "post_process L ?g ?ni ?vs ?comps (snd (snd sys)) sol = Some r" and res: "res = fst r"
      by (cases "solve_linear (fst sys) (fst (snd sys))") (auto simp: empty_result_def)
    define ents1 where "ents1 = map (settle_entry L) ?ents"
    define nv where "nv = (?g, 0::real) # map (\<lambda>ni1. (fst ni1, sol ! snd ni1)) ?ni"
    define bc where "bc = branch_current L nv ?vs (length ?ni) sol"
    define f where "f = (\<lambda>e::solver_entry. cid (sc e))"
    define G where "G = (\<lambda>(t::string \<times> string \<times> real) cbi.
        AList.update (fst t) (AList.update (fst (snd t)) (snd (snd t)) (dict_get cbi (fst t) [])) cbi)"
    define T where "T = map (\<lambda>e. (parent e, label e, bc (sc e))) ents1"
    have e1: "snd (snd sys) = ents1" unfolding ents1_def by (rule assemble_entries[OF sys])
    have fmap: "map f ents1 = map f ?ents"
      by (simp add: ents1_def f_def settle_entry_keeps comp_def)
    have d1: "distinct (map f ents1)" unfolding fmap using dist by (simp add: f_def)
    have sp: "solver_parent_of ents1 = map (\<lambda>e. (f e, parent e)) ents1"
      using fold_update_distinct_empty[OF d1, of parent] by (simp add: solver_parent_of_def f_def)
    have sl: "solver_label_of ents1 = map (\<lambda>e. (f e, label e)) ents1"
      using fold_update_distinct_empty[OF d1, of label] by (simp add: solver_label_of_def f_def)
    have sci: "fold (\<lambda>e d. AList.update (cid (sc e)) (bc (sc e)) d) ents1 []
               = map (\<lambda>e. (f e, bc (sc e))) ents1"
      using fold_update_distinct_empty[OF d1, of "\<lambda>e. bc (sc e)"] by (simp add: f_def)
    from post_process_parts[OF pp] have nvr: "node_v res = nv"
      and cbi: "comp_branch_i res =
           fold (\<lambda>item cbi. AList.update (snd item)
                   (AList.update (dict_get (solver_label_of ents1) (fst item) ''main'')
                      (dict_get (fold (\<lambda>e d. AList.update (cid (sc e)) (bc (sc e)) d) ents1 [])
                         (fst item) 0)
                      (dict_get cbi (snd item) []))
                   cbi)
                (solver_parent_of ents1) []"
      unfolding res e1 nv_def bc_def by simp_all
    have cbiT: "comp_branch_i res = fold G T []"
      unfolding cbi sp sl sci T_def fold_map
    proof (rule fold_cong[OF refl refl])
      fix x assume x: "x \<in> set ents1"
      show "((\<lambda>item cbi. AList.update (snd item)
                (AList.update (dict_get (map (\<lambda>e. (f e, label e)) ents1) (fst item) ''main'')
                   (dict_get (map (\<lambda>e. (f e, bc (sc e))) ents1) (fst item) 0)
                   (dict_get cbi (snd item) []))
                cbi) \<circ> (\<lambda>e. (f e, parent e))) x
            = (G \<circ> (\<lambda>e. (parent e, label e, bc (sc e)))) x"
        using map_of_distinct_map[OF d1 x, of label] map_of_distinct_map[OF d1 x, of "\<lambda>e. bc (sc e)"]
        by (simp add: G_def dict_get_def fun_eq_iff)
    qed
    define h where "h = (\<lambda>pl::string \<times> string. if snd pl = ''main'' then fst pl else fst pl @ '':'' @ snd pl)"
    define k where "k = (\<lambda>e::solver_entry. (parent e, label e))"
    have shape1: "\<forall>x\<in>set ents1. f x = h (k x)"
      using expand_all_shape[of _ ?comps]
      by (auto simp: ents1_def f_def h_def k_def settle_entry_keeps)
    have "distinct (map k ents1)" using d1 shape1 by (rule distinct_through)
    then have dT: "distinct (map (\<lambda>t. (fst t, fst (snd t))) T)"
      by (simp add: T_def comp_def k_def)
    have memT: "(parent e, label e, bc (sc (settle_entry L e))) \<in> set T"
      using mem unfolding T_def ents1_def
      by (auto simp: image_iff settle_entry_keeps intro!: bexI[of _ e])
    from branch_fold_lookup[OF dT memT, of "[]"]
    have rep: "reported_current res e = bc (sc (settle_entry L e))"
      unfolding reported_current_def cbiT G_def .
    have "bc (sc (settle_entry L e))
          = (case R of None \<Rightarrow> 0
             | Some r \<Rightarrow> (dict_get nv (a (sc e)) 0 - dict_get nv (b (sc e)) 0) / r)"
      unfolding bc_def branch_current_def
      using settle_entry_settled[OF er ns] ns
      by (simp add: settle_entry_keeps split: option.splits)
    with rep show ?thesis unfolding nvr by simp
  qed
qed


text \<open>
  Claim C1 as stated fails when two expanded components share an identifier:
  \<open>solver_comp_i\<close>, \<open>solver_parent\<close> and \<open>solver_label\<close> are keyed by the
  identifier of the solver component, and the surrogate of the switch \<open>x\<close> is named
  \<open>x:t0\<close>. With a resistor of that name after the switch, the closed surrogate sits
  across 1 V with resistance \<open>1e-9\<close>, so its current is \<open>1e9\<close>; the result reports 0
  for it (no branch of \<open>x\<close>, and \<open>comp_i\<close> of \<open>x\<close> is 0), and the entry under
  \<open>x:t0\<close> is the resistor's current.
\<close>

theorem colliding_identifier_hides_branch_current:
  "(let cir = [(''s'', \<lparr>cid = ''s'', ctype = ''socket'', a = (1, 0), b = (0, 0),
                        props = Mapping.of_alist [(''V'', 1)], meta = Mapping.empty\<rparr>),
               (''x'', \<lparr>cid = ''x'', ctype = ''switch_spdt'', a = (1, 0), b = (0, 0),
                        props = Mapping.empty, meta = Mapping.empty\<rparr>),
               (''x:t0'', \<lparr>cid = ''x:t0'', ctype = ''resistor'', a = (1, 0), b = (0, 0),
                           props = Mapping.of_alist [(''R'', 1)], meta = Mapping.empty\<rparr>)];
        e = \<lparr>sc = surrogate ''x:t0'' (1, 0) (0, 0) 1 ''spdt->b'',
             parent = ''x'', label = ''t0'', origin = None\<rparr>
    in case solve_circuit lib_unused cir of
         None \<Rightarrow> False
       | Some rc \<Rightarrow>
           ok (fst rc) \<and> e \<in> set (expand_all (map snd cir)) \<and> ctype (sc e) \<noteq> ''socket'' \<and>
           map_option fst (effective_resistance lib_unused (sc e)) = Some (Some R_NEAR_SHORT) \<and>
           (dict_get (node_v (fst rc)) (a (sc e)) 0 - dict_get (node_v (fst rc)) (b (sc e)) 0)
             / R_NEAR_SHORT = 1000000000 \<and>
           reported_current (fst rc) e = 0 \<and>
           dict_get (comp_i (fst rc)) ''x'' 0 = 0 \<and>
           map_of (comp_branch_i (fst rc)) ''x:t0'' = Some [(''main'', 1)])"
  by code_simp

theorem reported_current_is_ohmic_witness:
  "reported_current
     (fst (the (solve_circuit lib_unused
        [(''s'', \<lparr>cid = ''s'', ctype = ''socket'', a = (1, 0), b = (0, 0),
                 props = Mapping.of_alist [(''V'', 1)], meta = Mapping.empty\<rparr>),
         (''r'', \<lparr>cid = ''r'', ctype = ''resistor'', a = (1, 0), b = (0, 0),
                 props = Mapping.of_alist [(''R'', 4)], meta = Mapping.empty\<rparr>)])))
     \<lparr>sc = \<lparr>cid = ''r'', ctype = ''resistor'', a = (1, 0), b = (0, 0),
             props = Mapping.of_alist [(''R'', 4)], meta = Mapping.empty\<rparr>,
      parent = ''r'', label = ''main'', origin = Some 1\<rparr>
   = 1 / 4"
proof -
  let ?cir = "[(''s'', \<lparr>cid = ''s'', ctype = ''socket'', a = (1, 0), b = (0, 0),
                 props = Mapping.of_alist [(''V'', 1)], meta = Mapping.empty\<rparr>),
         (''r'', \<lparr>cid = ''r'', ctype = ''resistor'', a = (1, 0), b = (0, 0),
                 props = Mapping.of_alist [(''R'', 4)], meta = Mapping.empty\<rparr>)]"
  let ?r = "\<lparr>cid = ''r'', ctype = ''resistor'', a = (1, 0), b = (0, 0),
             props = Mapping.of_alist [(''R'', 4)], meta = Mapping.empty\<rparr>"
  let ?e = "\<lparr>sc = ?r, parent = ''r'', label = ''main'', origin = Some 1\<rparr>"
  let ?res = "fst (the (solve_circuit lib_unused ?cir))"
  have h1: "solve_circuit lib_unused ?cir = Some (?res, snd (the (solve_circuit lib_unused ?cir)))"
    by code_simp
  have h2: "ok ?res" by code_simp
  have h3: "distinct (map (\<lambda>e. cid (sc e)) (expand_all (map snd ?cir)))" by code_simp
  have h4: "?e \<in> set (expand_all (map snd ?cir))" by code_simp
  have h5: "ctype (sc ?e) \<noteq> ''socket''" by simp
  have h6: "effective_resistance lib_unused (sc ?e) = Some (Some 4, ?r)" by code_simp
  have h7: "dict_get (node_v ?res) (a (sc ?e)) 0 - dict_get (node_v ?res) (b (sc ?e)) 0 = 1"
    by code_simp
  from reported_current_is_ohmic[OF h1 h2 h3 h4 h5 h6] h7 show ?thesis by simp
qed


subsection \<open>Settled components\<close>

lemma settle_entry_is_settled:
  "effective_resistance L (sc e) \<noteq> None \<or> ctype (sc e) = ''socket'' \<Longrightarrow> settled L (settle_entry L e)"
proof (cases "ctype (sc e) = ''socket''")
  case True
  then show ?thesis by (simp add: settled_def settle_entry_def)
next
  case False
  assume "effective_resistance L (sc e) \<noteq> None \<or> ctype (sc e) = ''socket''"
  with False obtain R c' where er: "effective_resistance L (sc e) = Some (R, c')" by auto
  from settle_entry_settled[OF er False] show ?thesis by (auto simp: settled_def)
qed

lemma stamp_components_settled:
  "stamp_components L ni es A = Some r \<Longrightarrow> \<forall>e\<in>set (snd r). settled L e"
proof (induction es arbitrary: A r)
  case Nil
  then show ?case by auto
next
  case (Cons e es)
  show ?case
  proof (cases "ctype (sc e) = ''socket''")
    case True
    with Cons.prems obtain r' where r': "stamp_components L ni es A = Some r'" and "snd r = e # snd r'"
      by auto
    with Cons.IH[OF r'] True show ?thesis by (simp add: settled_def)
  next
    case False
    from Cons.prems[unfolded stamp_components.simps if_not_P[OF False] bind_eq_Some_conv]
    obtain Rc A1 r' where er: "effective_resistance L (sc e) = Some Rc"
      and r': "stamp_components L ni es A1 = Some r'"
      and r: "Some (fst r', e\<lparr>sc := snd Rc\<rparr> # snd r') = Some r"
      by blast
    from er have "effective_resistance L (sc e) = Some (fst Rc, snd Rc)" by simp
    from er_settled[OF this] have "effective_resistance L (snd Rc) = Some (fst Rc, snd Rc)" by simp
    then have "\<exists>R. effective_resistance L (snd Rc) = Some (R, snd Rc)" by (rule exI)
    then have "settled L (e\<lparr>sc := snd Rc\<rparr>)" unfolding settled_def by simp
    moreover from r have "snd r = e\<lparr>sc := snd Rc\<rparr> # snd r'" by auto
    ultimately show ?thesis using Cons.IH[OF r'] by simp
  qed
qed

lemma stamp_components_again:
  "stamp_components L ni es A = Some r \<Longrightarrow> stamp_components L ni (snd r) A = Some r"
proof (induction es arbitrary: A r)
  case Nil
  then show ?case by auto
next
  case (Cons e es)
  show ?case
  proof (cases "ctype (sc e) = ''socket''")
    case True
    with Cons.prems obtain r' where r': "stamp_components L ni es A = Some r'"
      and r: "r = (fst r', e # snd r')"
      by auto
    from Cons.IH[OF r'] True show ?thesis by (simp add: r)
  next
    case False
    from Cons.prems[unfolded stamp_components.simps if_not_P[OF False] bind_eq_Some_conv]
    obtain Rc A1 r' where er: "effective_resistance L (sc e) = Some Rc"
      and A1: "(case fst Rc of None \<Rightarrow> Some A
                | Some R \<Rightarrow> map_option (\<lambda>g. stamp_conductance ni (snd Rc) g A) (py_div 1 R)) = Some A1"
      and r': "stamp_components L ni es A1 = Some r'"
      and r: "Some (fst r', e\<lparr>sc := snd Rc\<rparr> # snd r') = Some r"
      by blast
    from er have "effective_resistance L (sc e) = Some (fst Rc, snd Rc)" by simp
    from er_settled[OF this] have er2: "effective_resistance L (snd Rc) = Some Rc"
      and ct: "ctype (snd Rc) \<noteq> ''socket''" using False by simp_all
    from r have r2: "r = (fst r', e\<lparr>sc := snd Rc\<rparr> # snd r')" by auto
    show ?thesis
      unfolding r2 using er2 ct A1 Cons.IH[OF r'] by simp
  qed
qed

lemma solver_currents_entries:
  "\<forall>e\<in>set es. settled L e \<Longrightarrow> solver_currents L nv vs n sol es acc = Some sr \<Longrightarrow> snd sr = es"
proof (induction es arbitrary: acc sr)
  case Nil
  then show ?case by auto
next
  case (Cons e es)
  from Cons.prems(1) have rest: "\<forall>e\<in>set es. settled L e" by simp
  show ?case
  proof (cases "ctype (sc e) = ''socket''")
    case True
    from Cons.prems(2) True obtain sr' where
      sr': "solver_currents L nv vs n sol es
              (AList.update (cid (sc e)) (sol ! (n + index_of vs (sc e))) acc) = Some sr'"
      and "snd sr = e # snd sr'"
      by (auto simp: Let_def)
    with Cons.IH[OF rest sr'] show ?thesis by simp
  next
    case False
    from Cons.prems(2)[unfolded solver_currents.simps Let_def if_not_P[OF False] bind_eq_Some_conv]
    obtain Rc I sr' where er: "effective_resistance L (sc e) = Some Rc"
      and sr': "solver_currents L nv vs n sol es (AList.update (cid (sc e)) I acc) = Some sr'"
      and sr: "Some (fst sr', e\<lparr>sc := snd Rc\<rparr> # snd sr') = Some sr"
      by blast
    from Cons.prems(1) False er have "snd Rc = sc e" by (auto simp: settled_def)
    moreover from sr have "snd sr = e\<lparr>sc := snd Rc\<rparr> # snd sr'" by auto
    ultimately show ?thesis using Cons.IH[OF rest sr'] by simp
  qed
qed

lemma branch_loop_entries:
  "\<forall>e\<in>set (bs_entries st). settled L e \<Longrightarrow> branch_loop L sl sci items st = Some st' \<Longrightarrow>
   bs_entries st' = bs_entries st"
proof (induction items arbitrary: st)
  case Nil
  then show ?case by simp
next
  case (Cons item items)
  define st1 where "st1 = st\<lparr>bs_branch_i :=
                     AList.update (snd item)
                       (AList.update (dict_get sl (fst item) ''main'') (dict_get sci (fst item) 0)
                          (dict_get (bs_branch_i st) (snd item) []))
                       (bs_branch_i st)\<rparr>"
  have ents1: "bs_entries st1 = bs_entries st" by (simp add: st1_def)
  have same: "(bs_entries st)[j := (bs_entries st ! j)\<lparr>sc := c'\<rparr>] = bs_entries st"
    if "j < length (bs_entries st)" "ctype (sc (bs_entries st ! j)) \<noteq> ''socket''"
       "effective_resistance L (sc (bs_entries st ! j)) = Some (R, c')" for j R c'
  proof -
    from that(1) Cons.prems(1) have "settled L (bs_entries st ! j)" by simp
    with that(2,3) have "c' = sc (bs_entries st ! j)" by (auto simp: settled_def)
    then show ?thesis by simp
  qed
  from Cons.prems(2) have
    "\<exists>st2. bs_entries st2 = bs_entries st \<and> branch_loop L sl sci items st2 = Some st'"
    unfolding branch_loop.simps Let_def st1_def[symmetric]
    by (auto simp: bind_eq_Some_conv ents1 find_entry_def Let_def same split: option.splits if_splits)
       (rule exI, rule conjI[rotated], assumption, simp add: ents1 same)+
  then obtain st2 where s2: "bs_entries st2 = bs_entries st"
    and run: "branch_loop L sl sci items st2 = Some st'"
    by blast
  from Cons.prems(1) s2 have "\<forall>e\<in>set (bs_entries st2). settled L e" by simp
  from Cons.IH[OF this run] s2 show ?case by simp
qed


subsection \<open>Solving a circuit whose components are settled\<close>

lemma settle_component_keeps:
  "cid (settle_component L c) = cid c" "ctype (settle_component L c) = ctype c"
  "a (settle_component L c) = a c" "b (settle_component L c) = b c"
proof -
  have "cid (settle_component L c) = cid c \<and> ctype (settle_component L c) = ctype c \<and>
        a (settle_component L c) = a c \<and> b (settle_component L c) = b c"
  proof (cases "effective_resistance L c")
    case None
    then show ?thesis by (simp add: settle_component_def)
  next
    case (Some Rc)
    then have "effective_resistance L c = Some (fst Rc, snd Rc)" by simp
    from er_settled[OF this] Some show ?thesis by (simp add: settle_component_def)
  qed
  then show "cid (settle_component L c) = cid c" "ctype (settle_component L c) = ctype c"
    "a (settle_component L c) = a c" "b (settle_component L c) = b c"
    by simp_all
qed

lemma settle_component_socket: "ctype c = ''socket'' \<Longrightarrow> settle_component L c = c"
  by (simp add: settle_component_def)

lemma settle_surrogate:
  "settle_entry L \<lparr>sc = surrogate scid pa pb st v, parent = p, label = l, origin = None\<rparr>
   = \<lparr>sc = surrogate scid pa pb st v, parent = p, label = l, origin = None\<rparr>"
proof -
  have "ctype (surrogate scid pa pb st v) = ''switch_spst''" by (simp add: surrogate_def)
  from er_switch[OF this, of L] show ?thesis
    by (simp add: settle_entry_def surrogate_def)
qed

lemma expand_settled_component:
  "expand_component i (settle_component L c) = map (settle_entry L) (expand_component i c)"
proof -
  consider (spdt) "ctype c = ''switch_spdt''" | (sp3t) "ctype c = ''switch_sp3t''"
    | (dpst) "ctype c = ''switch_dpst''" | (dpdt) "ctype c = ''switch_dpdt''"
    | (button) "ctype c = ''button_momentary''" | (socket) "ctype c = ''socket''"
    | (other) "ctype c \<notin> {''switch_spdt'', ''switch_sp3t'', ''switch_dpst'', ''switch_dpdt'',
                           ''button_momentary'', ''socket''}"
    by blast
  then show ?thesis
  proof cases
    case spdt
    then have s: "settle_component L c = c" by (simp add: settle_component_def)
    from spdt show ?thesis unfolding s
      by (cases "prop_int c ''throw'' 0 = 0") (simp_all add: expand_component_def Let_def settle_surrogate)
  next
    case sp3t
    then have s: "settle_component L c = c" by (simp add: settle_component_def)
    from sp3t show ?thesis unfolding s
      by (simp add: expand_component_def Let_def settle_surrogate)
  next
    case dpst
    then have s: "settle_component L c = c" by (simp add: settle_component_def)
    from dpst show ?thesis unfolding s
      by (simp add: expand_component_def Let_def settle_surrogate)
  next
    case dpdt
    then have s: "settle_component L c = c" by (simp add: settle_component_def)
    from dpdt show ?thesis unfolding s
      by (simp add: expand_component_def Let_def settle_surrogate)
  next
    case button
    then have s: "settle_component L c = c" by (simp add: settle_component_def)
    from button show ?thesis unfolding s
      by (simp add: expand_component_def Let_def settle_surrogate)
  next
    case socket
    then have s: "settle_component L c = c" by (simp add: settle_component_def)
    from socket show ?thesis unfolding s
      by (simp add: expand_component_def settle_entry_def)
  next
    case other
    then have e1: "expand_component i c = [\<lparr>sc = c, parent = cid c, label = ''main'', origin = Some i\<rparr>]"
      by (simp add: expand_component_def)
    from other have "ctype (settle_component L c) \<notin> {''switch_spdt'', ''switch_sp3t'', ''switch_dpst'',
                        ''switch_dpdt'', ''button_momentary'', ''socket''}"
      by (simp add: settle_component_keeps)
    then have e2: "expand_component i (settle_component L c)
                   = [\<lparr>sc = settle_component L c, parent = cid c, label = ''main'', origin = Some i\<rparr>]"
      by (simp add: expand_component_def settle_component_keeps)
    from other show ?thesis unfolding e1 e2
      by (simp add: settle_entry_def settle_component_def split: option.splits)
  qed
qed

lemma expand_all_from_settled:
  "concat (map (\<lambda>ic. expand_component (fst ic) (snd ic)) (enumerate n (map (settle_component L) comps)))
   = map (settle_entry L) (concat (map (\<lambda>ic. expand_component (fst ic) (snd ic)) (enumerate n comps)))"
  by (induction comps arbitrary: n) (simp_all add: expand_settled_component)

lemma expand_all_settled:
  "expand_all (map (settle_component L) comps) = map (settle_entry L) (expand_all comps)"
  by (simp add: expand_all_def expand_all_from_settled)

lemma sockets_settled:
  "filter (\<lambda>c. ctype c = ''socket'') (map (settle_component L) comps)
   = filter (\<lambda>c. ctype c = ''socket'') comps"
  by (induction comps) (simp_all add: settle_component_keeps settle_component_socket)

lemma ground_settled: "ground_of (map (settle_component L) comps) = ground_of comps"
proof -
  have pts: "concat (map (\<lambda>c. [a c, b c]) (map (settle_component L) comps)) = concat (map (\<lambda>c. [a c, b c]) comps)"
    by (simp add: comp_def settle_component_keeps)
  show ?thesis unfolding ground_of_def sockets_settled Let_def pts by (rule refl)
qed

lemma nodes_settled: "nodes_of (map sc (map (settle_entry L) ents)) = nodes_of (map sc ents)"
  by (simp add: nodes_of_def comp_def settle_entry_keeps)

lemma entry_sockets_settled:
  "filter (\<lambda>c. ctype c = ''socket'') (map sc (map (settle_entry L) ents))
   = filter (\<lambda>c. ctype c = ''socket'') (map sc ents)"
  by (induction ents) (simp_all add: settle_entry_keeps, simp add: settle_entry_def)


lemma fold_origin_none:
  "\<forall>e\<in>set es. origin e = None \<Longrightarrow>
   fold (\<lambda>e cr. case origin e of None \<Rightarrow> cr | Some i \<Rightarrow> cr[i := (fst (cr ! i), sc e)]) es cr = cr"
  by (induction es arbitrary: cr) simp_all

lemma expand_component_origin:
  assumes "e \<in> set (expand_component i c)"
  shows "origin e = (if ctype c \<in> {''switch_spdt'', ''switch_sp3t'', ''switch_dpst'', ''switch_dpdt'',
                                     ''button_momentary''} then None else Some i)"
proof -
  consider (spdt) "ctype c = ''switch_spdt''" | (sp3t) "ctype c = ''switch_sp3t''"
    | (dpst) "ctype c = ''switch_dpst''" | (dpdt) "ctype c = ''switch_dpdt''"
    | (button) "ctype c = ''button_momentary''"
    | (other) "ctype c \<notin> {''switch_spdt'', ''switch_sp3t'', ''switch_dpst'', ''switch_dpdt'',
                           ''button_momentary''}"
    by blast
  then show ?thesis
  proof cases
    case spdt
    with assms show ?thesis
      by (cases "prop_int c ''throw'' 0 = 0") (simp_all add: expand_component_def Let_def)
  next
    case sp3t
    with assms show ?thesis by (simp add: expand_component_def Let_def)
  next
    case dpst
    with assms show ?thesis by (auto simp: expand_component_def Let_def)
  next
    case dpdt
    with assms show ?thesis by (auto simp: expand_component_def Let_def)
  next
    case button
    with assms show ?thesis by (simp add: expand_component_def Let_def)
  next
    case other
    with assms show ?thesis by (simp add: expand_component_def)
  qed
qed

lemma write_back_one:
  assumes "length pre = n"
  shows "fold (\<lambda>e cr. case origin e of None \<Rightarrow> cr | Some i \<Rightarrow> cr[i := (fst (cr ! i), sc e)])
           (map (settle_entry L) (expand_component n c)) (pre @ (k, c) # rest)
         = pre @ (k, settle_component L c) # rest"
proof (cases "ctype c \<in> {''switch_spdt'', ''switch_sp3t'', ''switch_dpst'', ''switch_dpdt'',
                           ''button_momentary''}")
  case True
  then have "\<forall>e\<in>set (map (settle_entry L) (expand_component n c)). origin e = None"
    using expand_component_origin[of _ n c] by (auto simp: settle_entry_keeps)
  note unchanged = fold_origin_none[OF this]
  from True have "ctype c \<in> {''switch_spdt'', ''switch_sp3t'', ''switch_dpst'', ''switch_dpdt'',
                     ''button_momentary'', ''socket''}" by blast
  then have s: "settle_component L c = c" unfolding settle_component_def by (rule if_P)
  show ?thesis unfolding s by (rule unchanged)
next
  case False
  then have e1: "expand_component i c = [\<lparr>sc = c, parent = cid c, label = ''main'', origin = Some i\<rparr>]" for i
    by (simp add: expand_component_def)
  have "sc (settle_entry L \<lparr>sc = c, parent = cid c, label = ''main'', origin = Some n\<rparr>)
        = settle_component L c"
    using False by (auto simp: settle_entry_def settle_component_def split: option.splits)
  moreover from assms have n: "n = length pre" by simp
  ultimately show ?thesis
    by (simp add: e1 settle_entry_keeps)
qed

lemma write_back_from:
  "length pre = n \<Longrightarrow>
   fold (\<lambda>e cr. case origin e of None \<Rightarrow> cr | Some i \<Rightarrow> cr[i := (fst (cr ! i), sc e)])
     (map (settle_entry L)
        (concat (map (\<lambda>ic. expand_component (fst ic) (snd ic)) (enumerate n (map snd cir)))))
     (pre @ cir)
   = pre @ map (\<lambda>kc. (fst kc, settle_component L (snd kc))) cir"
proof (induction cir arbitrary: pre n)
  case Nil
  then show ?case by simp
next
  case (Cons kc cir)
  have len: "length (pre @ [(fst kc, settle_component L (snd kc))]) = Suc n"
    using Cons.prems by simp
  have one: "fold (\<lambda>e cr. case origin e of None \<Rightarrow> cr | Some i \<Rightarrow> cr[i := (fst (cr ! i), sc e)])
           (map (settle_entry L) (expand_component n (snd kc))) (pre @ kc # cir)
         = pre @ (fst kc, settle_component L (snd kc)) # cir"
    using write_back_one[OF Cons.prems, of L "snd kc" "fst kc" cir] by simp
  show ?case
    using Cons.IH[OF len] by (simp add: one)
qed

lemma write_back_settled:
  "write_back cir (map (settle_entry L) (expand_all (map snd cir)))
   = map (\<lambda>kc. (fst kc, settle_component L (snd kc))) cir"
  using write_back_from[of "[]" 0 L cir] by (simp add: write_back_def expand_all_def)

lemma comp_current_settled:
  "comp_current sci cbi (settle_component L c) = comp_current sci cbi c"
  by (simp add: comp_current_def settle_component_keeps split: option.splits)

lemma comp_currents_settled:
  "comp_currents sci cbi (map (settle_component L) comps) = comp_currents sci cbi comps"
  by (simp add: comp_currents_def fold_map comp_def settle_component_keeps comp_current_settled)

lemma overcurrent_flags_settled:
  "overcurrent_flags ci vs (map (settle_component L) comps) flags = overcurrent_flags ci vs comps flags"
proof -
  have "fold (\<lambda>c f. if map_of f (cid c) \<noteq> None then f
                     else if ctype c = ''socket'' then f
                     else if \<bar>dict_get ci (cid c) 0\<bar> > thr then AList.update (cid c) ''overcurrent'' f
                     else f)
             (map (settle_component L) comps) flags
        = fold (\<lambda>c f. if map_of f (cid c) \<noteq> None then f
                     else if ctype c = ''socket'' then f
                     else if \<bar>dict_get ci (cid c) 0\<bar> > thr then AList.update (cid c) ''overcurrent'' f
                     else f)
             comps flags" for thr
    by (simp add: fold_map comp_def settle_component_keeps cong: if_cong)
  then show ?thesis by (simp add: overcurrent_flags_def split: option.splits)
qed

lemma post_process_settled:
  "post_process L g ni vs (map (settle_component L) comps) ents sol = post_process L g ni vs comps ents sol"
  by (simp add: post_process_def comp_currents_settled overcurrent_flags_settled)

lemma post_process_entries:
  assumes "post_process L g ni vs comps ents sol = Some r" and "\<forall>e\<in>set ents. settled L e"
  shows "snd r = ents"
proof -
  let ?nv = "(g, 0) # map (\<lambda>ni1. (fst ni1, sol ! snd ni1)) ni"
  from assms(1)[unfolded post_process_def Let_def bind_eq_Some_conv]
  obtain sr st where sr: "solver_currents L ?nv vs (length ni) sol ents [] = Some sr"
    and st: "branch_loop L (solver_label_of ents) (fst sr) (solver_parent_of ents)
               \<lparr>bs_entries = snd sr, bs_branch_i = [], bs_flags = []\<rparr> = Some st"
    and r: "snd r = bs_entries st"
    by auto
  from solver_currents_entries[OF assms(2) sr] have s1: "snd sr = ents" .
  with assms(2) have "\<forall>e\<in>set (bs_entries \<lparr>bs_entries = snd sr, bs_branch_i = [], bs_flags = []\<rparr>). settled L e"
    by simp
  from branch_loop_entries[OF this st] s1 r show ?thesis by simp
qed


lemma assemble_settled:
  assumes sys: "assemble L cir = Some sys"
    and comps: "map snd cir1 = map (settle_component L) (map snd cir)"
  shows "assemble L cir1 = Some sys"
proof -
  let ?comps = "map snd cir"
  let ?g = "ground_of ?comps"
  let ?ents = "expand_all ?comps"
  let ?ni = "node_index_of ?g (nodes_of (map sc ?ents))"
  let ?vs = "filter (\<lambda>c. ctype c = ''socket'') (map sc ?ents)"
  let ?N = "length ?ni + length ?vs"
  from sys[unfolded assemble_def Let_def bind_eq_Some_conv]
  obtain st where st: "stamp_components L ?ni ?ents (replicate ?N (replicate ?N 0)) = Some st"
    and out: "Some (fst (stamp_sources ?ni (length ?ni) ?vs 0 (fst st, replicate ?N 0)),
                    snd (stamp_sources ?ni (length ?ni) ?vs 0 (fst st, replicate ?N 0)),
                    snd st) = Some sys"
    by blast
  have ents1: "snd st = map (settle_entry L) ?ents" by (rule stamp_components_entries[OF st])
  have ex: "expand_all (map snd cir1) = snd st"
    unfolding comps expand_all_settled ents1 ..
  have g: "ground_of (map snd cir1) = ?g" unfolding comps by (rule ground_settled)
  have nodes: "nodes_of (map sc (snd st)) = nodes_of (map sc ?ents)"
    unfolding ents1 by (rule nodes_settled)
  have vs: "filter (\<lambda>c. ctype c = ''socket'') (map sc (snd st)) = ?vs"
    unfolding ents1 by (rule entry_sockets_settled)
  have again: "stamp_components L ?ni (snd st) (replicate ?N (replicate ?N 0)) = Some st"
    by (rule stamp_components_again[OF st])
  show ?thesis
    unfolding assemble_def Let_def ex g nodes vs again using out by simp
qed


lemma assemble_settled_entries:
  "assemble L cir = Some sys \<Longrightarrow> \<forall>e\<in>set (snd (snd sys)). settled L e"
  by (auto simp: assemble_def Let_def bind_eq_Some_conv dest!: stamp_components_settled)

text \<open>
  Claim C6. Whenever \<open>solve_circuit\<close> returns a result, a second call on the circuit as
  the first call left it (rheostats clamped) returns an equal result: the same flags,
  node voltages, component and branch currents, component flags and warnings.
\<close>

theorem solve_circuit_idempotent:
  assumes run: "solve_circuit L cir = Some (res, cir1)"
  shows "\<exists>cir2. solve_circuit L cir1 = Some (res, cir2)"
proof -
  let ?comps = "map snd cir"
  let ?g = "ground_of ?comps"
  let ?ents = "expand_all ?comps"
  let ?ni = "node_index_of ?g (nodes_of (map sc ?ents))"
  let ?vs = "filter (\<lambda>c. ctype c = ''socket'') (map sc ?ents)"
  show ?thesis
  proof (cases "length ?ni + length ?vs = 0")
    case True
    from run[unfolded solve_circuit_empty[OF True]] have "cir1 = cir" by simp
    with run show ?thesis by blast
  next
    case False
    from run[unfolded solve_circuit_nonempty[OF False] bind_eq_Some_conv]
    obtain sys where sys: "assemble L cir = Some sys"
      and rest: "(case solve_linear (fst sys) (fst (snd sys)) of
              None \<Rightarrow>
                Some (empty_result\<lparr>ok := False, singular := True, warnings := [SingularMatrix]\<rparr>,
                      write_back cir (snd (snd sys)))
            | Some sol \<Rightarrow>
                map_option (\<lambda>r. (fst r, write_back cir (snd r)))
                  (post_process L ?g ?ni ?vs ?comps (snd (snd sys)) sol)) = Some (res, cir1)"
      by blast
    let ?E = "snd (snd sys)"
    have e1: "?E = map (settle_entry L) ?ents" by (rule assemble_entries[OF sys])
    have set1: "\<forall>e\<in>set ?E. settled L e" by (rule assemble_settled_entries[OF sys])
    have wb: "write_back cir ?E = map (\<lambda>kc. (fst kc, settle_component L (snd kc))) cir"
      unfolding e1 by (rule write_back_settled)
    have cir1: "cir1 = write_back cir ?E"
    proof (cases "solve_linear (fst sys) (fst (snd sys))")
      case None
      with rest show ?thesis by simp
    next
      case (Some sol)
      with rest obtain r where pp: "post_process L ?g ?ni ?vs ?comps ?E sol = Some r"
        and c: "cir1 = write_back cir (snd r)"
        by auto
      from post_process_entries[OF pp set1] c show ?thesis by simp
    qed
    have comps1: "map snd cir1 = map (settle_component L) ?comps"
      unfolding cir1 wb by (simp add: comp_def)
    have sys1: "assemble L cir1 = Some sys" by (rule assemble_settled[OF sys comps1])
    have g1: "ground_of (map snd cir1) = ?g" unfolding comps1 by (rule ground_settled)
    have ex1: "expand_all (map snd cir1) = ?E" unfolding comps1 expand_all_settled e1 ..
    have n1: "nodes_of (map sc ?E) = nodes_of (map sc ?ents)" unfolding e1 by (rule nodes_settled)
    have v1: "filter (\<lambda>c. ctype c = ''socket'') (map sc ?E) = ?vs"
      unfolding e1 by (rule entry_sockets_settled)
    have N1: "length (node_index_of (ground_of (map snd cir1)) (nodes_of (map sc (expand_all (map snd cir1)))))
           + length (filter (\<lambda>c. ctype c = ''socket'') (map sc (expand_all (map snd cir1)))) \<noteq> 0"
      unfolding g1 ex1 n1 v1 by (rule False)
    have pp1: "post_process L ?g ?ni ?vs (map snd cir1) ?E sol
               = post_process L ?g ?ni ?vs ?comps ?E sol" for sol
      unfolding comps1 by (rule post_process_settled)
    have second: "solve_circuit L cir1 =
          (case solve_linear (fst sys) (fst (snd sys)) of
              None \<Rightarrow>
                Some (empty_result\<lparr>ok := False, singular := True, warnings := [SingularMatrix]\<rparr>,
                      write_back cir1 ?E)
            | Some sol \<Rightarrow>
                map_option (\<lambda>r. (fst r, write_back cir1 (snd r)))
                  (post_process L ?g ?ni ?vs ?comps ?E sol))"
      unfolding solve_circuit_nonempty[OF N1] sys1 g1 ex1 n1 v1 by (simp add: pp1 cong: option.case_cong)
    show ?thesis
    proof (cases "solve_linear (fst sys) (fst (snd sys))")
      case None
      with rest second show ?thesis by simp
    next
      case (Some sol)
      with rest obtain r where pp: "post_process L ?g ?ni ?vs ?comps ?E sol = Some r"
        and "res = fst r"
        by auto
      with second Some show ?thesis by simp
    qed
  qed
qed

theorem solve_circuit_idempotent_witness:
  "\<exists>cir2. solve_circuit lib_unused
      (snd (the (solve_circuit lib_unused
         [(''s'', \<lparr>cid = ''s'', ctype = ''socket'', a = (1, 0), b = (0, 0),
                  props = Mapping.of_alist [(''V'', 1)], meta = Mapping.empty\<rparr>),
          (''h'', \<lparr>cid = ''h'', ctype = ''rheostat'', a = (1, 0), b = (0, 0),
                  props = Mapping.of_alist [(''R'', 500), (''Rmin'', 1), (''Rmax'', 4)],
                  meta = Mapping.empty\<rparr>)])))
    = Some (fst (the (solve_circuit lib_unused
         [(''s'', \<lparr>cid = ''s'', ctype = ''socket'', a = (1, 0), b = (0, 0),
                  props = Mapping.of_alist [(''V'', 1)], meta = Mapping.empty\<rparr>),
          (''h'', \<lparr>cid = ''h'', ctype = ''rheostat'', a = (1, 0), b = (0, 0),
                  props = Mapping.of_alist [(''R'', 500), (''Rmin'', 1), (''Rmax'', 4)],
                  meta = Mapping.empty\<rparr>)])), cir2)"
proof (rule solve_circuit_idempotent)
  show "solve_circuit lib_unused
         [(''s'', \<lparr>cid = ''s'', ctype = ''socket'', a = (1, 0), b = (0, 0),
                  props = Mapping.of_alist [(''V'', 1)], meta = Mapping.empty\<rparr>),
          (''h'', \<lparr>cid = ''h'', ctype = ''rheostat'', a = (1, 0), b = (0, 0),
                  props = Mapping.of_alist [(''R'', 500), (''Rmin'', 1), (''Rmax'', 4)],
                  meta = Mapping.empty\<rparr>)]
        = Some (fst (the (solve_circuit lib_unused
         [(''s'', \<lparr>cid = ''s'', ctype = ''socket'', a = (1, 0), b = (0, 0),
                  props = Mapping.of_alist [(''V'', 1)], meta = Mapping.empty\<rparr>),
          (''h'', \<lparr>cid = ''h'', ctype = ''rheostat'', a = (1, 0), b = (0, 0),
                  props = Mapping.of_alist [(''R'', 500), (''Rmin'', 1), (''Rmax'', 4)],
                  meta = Mapping.empty\<rparr>)])),
                snd (the (solve_circuit lib_unused
         [(''s'', \<lparr>cid = ''s'', ctype = ''socket'', a = (1, 0), b = (0, 0),
                  props = Mapping.of_alist [(''V'', 1)], meta = Mapping.empty\<rparr>),
          (''h'', \<lparr>cid = ''h'', ctype = ''rheostat'', a = (1, 0), b = (0, 0),
                  props = Mapping.of_alist [(''R'', 500), (''Rmin'', 1), (''Rmax'', 4)],
                  meta = Mapping.empty\<rparr>)])))"
    by code_simp
qed

end
